theory Spec2Isabelle
  imports Complex_Main "HOL-Library.AList" "HOL-Library.Log_Nat"
begin

section \<open>Numbers, dates and dictionaries\<close>

text \<open>
  The backend computes with Python's \<open>Decimal\<close>, embedded as exact rationals: sums,
  differences and products of the stored amounts are exact in \<open>Decimal\<close> as long as they
  fit its 28 significant digits; the rounding of a quotient to those 28 digits and of a
  \<open>Decimal\<close> converted to a \<open>float\<close> is outside this model. A value written to a
  \<open>Numeric\<close> column is rounded to the scale of the column where the row is committed.
  The \<open>float\<close> arithmetic of \<open>calculate_twr\<close> is double-precision arithmetic, every
  operation rounded to the nearest double (see below).

  A \<open>date\<close> is the ordinal of a calendar day, a \<open>datetime\<close> a number of seconds counted from
  the midnight that starts day 0, so that both are ordered as in Python and in SQL.

  A Python \<open>dict\<close> is an association list with distinct keys in insertion order;
  \<open>d[k] = v\<close> is \<^const>\<open>AList.update\<close> (the value is replaced in place when the key is
  there, the pair is appended otherwise), \<open>d.get(k)\<close> is \<^const>\<open>map_of\<close> and
  \<open>d.keys()\<close> is \<open>map fst\<close>.
\<close>

type_synonym decimal = rat
type_synonym date = int
type_synonym datetime = int



definition dict_get :: "('k \<times> 'v) list \<Rightarrow> 'k \<Rightarrow> 'v \<Rightarrow> 'v" where
  \<comment> \<open>\<open>d.get(k, default)\<close>\<close>
  "dict_get d k dflt = (case map_of d k of None \<Rightarrow> dflt | Some v \<Rightarrow> v)"

datatype http_exception = HTTPException (status_code: nat) (detail: string)

datatype py_error =
  KeyError | IndexError | ValidationError | DivisionByZero | AttributeError | ConfigError

section \<open>The position ledger: \<open>app/models/allocation.py\<close>\<close>

record asset =
  asset_ident :: int
  current_price :: "decimal option"

record allocation =
  ident :: int
  client_id :: int
  asset_id :: int
  quantity :: decimal
  purchase_price :: decimal
  purchase_date :: datetime
  total_invested :: decimal
  fees :: decimal
  is_active :: bool
  position_type :: string
  exit_price :: "decimal option"
  exit_date :: "datetime option"
  exit_fees :: decimal
  last_price_check :: "datetime option"
  unrealized_gain_loss :: "decimal option"
  unrealized_gain_loss_percent :: "decimal option"
  realized_gain_loss :: "decimal option"
  alloc_notes :: "string option"
  order_id :: "string option"
  asset :: "asset option"


definition total_cost :: "allocation \<Rightarrow> decimal" where
  "total_cost a = total_invested a + fees a"



definition update_performance :: "allocation \<Rightarrow> decimal \<Rightarrow> datetime \<Rightarrow> allocation" where
  \<comment> \<open>the third argument is the database's \<open>now()\<close>\<close>
  "update_performance a price now =
     (let cv = quantity a * price;
          a1 = a\<lparr>unrealized_gain_loss := Some (cv - total_cost a)\<rparr>;
          a2 = (if total_cost a1 > 0
                then a1\<lparr>unrealized_gain_loss_percent :=
                          Some (((cv - total_cost a) / total_cost a1) * 100)\<rparr>
                else a1)
      in a2\<lparr>last_price_check := Some now\<rparr>)"

definition close_position ::
  "allocation \<Rightarrow> decimal \<Rightarrow> datetime option \<Rightarrow> decimal option \<Rightarrow> datetime \<Rightarrow> allocation" where
  \<comment> \<open>\<open>exit_date or func.now()\<close> and \<open>exit_fees or Decimal('0')\<close>: \<open>None\<close> and a zero
      amount are falsy, every datetime is truthy; the last argument is the database's
      \<open>now()\<close>\<close>
  "close_position a ep ed ef now =
     (let a1 = a\<lparr>is_active := False\<rparr>;
          a2 = a1\<lparr>exit_price := Some ep\<rparr>;
          a3 = a2\<lparr>exit_date := Some (case ed of Some d \<Rightarrow> d | None \<Rightarrow> now)\<rparr>;
          a4 = a3\<lparr>exit_fees := (case ef of Some f \<Rightarrow> if f \<noteq> 0 then f else 0 | None \<Rightarrow> 0)\<rparr>;
          exit_value = quantity a4 * ep;
          total_costs = total_cost a4 + exit_fees a4;
          a5 = a4\<lparr>realized_gain_loss := Some (exit_value - total_costs)\<rparr>;
          a6 = a5\<lparr>unrealized_gain_loss := None\<rparr>
      in a6\<lparr>unrealized_gain_loss_percent := None\<rparr>)"

section \<open>The allocation endpoints: \<open>app/api/v1/allocations.py\<close>\<close>


record allocation_close =
  cl_exit_price :: decimal
  cl_exit_date :: "datetime option"
  cl_exit_fees :: decimal
  cl_notes :: "string option"

record database =
  db_clients :: "int \<Rightarrow> unit option"
  db_assets :: "int \<Rightarrow> asset option"
  db_allocations :: "int \<Rightarrow> allocation option"
  db_next_id :: int


definition round_half_away :: "decimal \<Rightarrow> int" where
  \<comment> \<open>to the nearest integer, a tie going away from zero\<close>
  "round_half_away x = (if 0 \<le> x then \<lfloor>x + 1 / 2\<rfloor> else - \<lfloor>- x + 1 / 2\<rfloor>)"

definition numeric :: "nat \<Rightarrow> nat \<Rightarrow> decimal \<Rightarrow> decimal option" where
  \<comment> \<open>what a column \<open>Numeric(p, s)\<close> holds after a value is written to it: PostgreSQL
      rounds the value to \<open>s\<close> decimals and refuses it (\<open>None\<close>) when more than \<open>p - s\<close>
      digits are left before the point\<close>
  "numeric p s x =
     (let y = of_int (round_half_away (x * 10 ^ s)) / 10 ^ s
      in if \<bar>y\<bar> < 10 ^ (p - s) then Some y else None)"

definition numeric_null :: "nat \<Rightarrow> nat \<Rightarrow> decimal option \<Rightarrow> decimal option option" where
  \<comment> \<open>the same for a nullable column\<close>
  "numeric_null p s v =
     (case v of None \<Rightarrow> Some None | Some x \<Rightarrow> map_option Some (numeric p s x))"

definition commit_allocation :: "allocation \<Rightarrow> allocation option" where
  \<comment> \<open>the row as the table holds it after \<open>db.commit()\<close>, and as \<open>db.refresh\<close> reads it
      back; \<open>None\<close> when a value does not fit its column (the commit raises and nothing is
      written)\<close>
  "commit_allocation a =
     Option.bind (numeric 15 4 (quantity a)) (\<lambda>q.
     Option.bind (numeric 12 4 (purchase_price a)) (\<lambda>pp.
     Option.bind (numeric 15 2 (total_invested a)) (\<lambda>ti.
     Option.bind (numeric 10 2 (fees a)) (\<lambda>fe.
     Option.bind (numeric_null 12 4 (exit_price a)) (\<lambda>ep.
     Option.bind (numeric 10 2 (exit_fees a)) (\<lambda>ef.
     Option.bind (numeric_null 15 2 (unrealized_gain_loss a)) (\<lambda>ug.
     Option.bind (numeric_null 8 4 (unrealized_gain_loss_percent a)) (\<lambda>up.
     Option.bind (numeric_null 15 2 (realized_gain_loss a)) (\<lambda>rg.
       Some (a\<lparr>quantity := q, purchase_price := pp, total_invested := ti, fees := fe,
                exit_price := ep, exit_fees := ef, unrealized_gain_loss := ug,
                unrealized_gain_loss_percent := up, realized_gain_loss := rg\<rparr>))))))))))"

definition from_orm :: "allocation \<Rightarrow> py_error + allocation" where
  \<comment> \<open>\<open>AllocationSchema.from_orm\<close>: the \<open>Config\<close> of the schema sets \<open>from_attributes\<close> and
      not \<open>orm_mode\<close>, and the pydantic release that the schemas are written for
      (\<open>validator\<close>, \<open>Field(regex=...)\<close>) raises \<open>ConfigError\<close> in \<open>from_orm\<close> when
      \<open>orm_mode\<close> is not set\<close>
  "from_orm a = Inl ConfigError"


definition close_allocation ::
  "database \<Rightarrow> int \<Rightarrow> allocation_close \<Rightarrow> datetime \<Rightarrow> database \<times> (http_exception + allocation)" where
  \<comment> \<open>the database is written by \<open>db.commit()\<close> only, after both checks\<close>
  "close_allocation db allocation_id close_data now =
     (case db_allocations db allocation_id of
        None \<Rightarrow> (db, Inl (HTTPException 404 ''Allocation not found''))
      | Some a \<Rightarrow>
          if \<not> is_active a
          then (db, Inl (HTTPException 400 ''Allocation is already closed''))
          else
            (let a' = close_position a (cl_exit_price close_data) (cl_exit_date close_data)
                        (Some (cl_exit_fees close_data)) now
             in case commit_allocation a' of
                  None \<Rightarrow> (db, Inl (HTTPException 500 ''Error closing allocation''))
                | Some stored \<Rightarrow>
                    (let db' = db\<lparr>db_allocations :=
                                     (db_allocations db)(allocation_id \<mapsto> stored)\<rparr>
                     in case from_orm stored of
                          Inl e \<Rightarrow> (db', Inl (HTTPException 500 ''Error closing allocation''))
                        | Inr response \<Rightarrow> (db', Inr response))))"

section \<open>Python floats\<close>

text \<open>
  A Python \<open>float\<close> is an IEEE 754 double: a finite number, an infinity or a NaN. A
  finite double is embedded as the rational it denotes (the two zeros are one value, as they
  are for \<open>==\<close>), and each operation returns the exact result rounded to the nearest
  double.
\<close>

datatype pyfloat = Finite rat | PosInf | NegInf | NaN

definition floor_log2 :: "rat \<Rightarrow> int" where
  \<comment> \<open>for \<open>x > 0\<close>, the exponent \<open>e\<close> with \<open>2 ^ e \<le> x < 2 ^ (e + 1)\<close>, found from the bit
      lengths of numerator and denominator\<close>
  "floor_log2 x =
     (let (a, b) = quotient_of x;
          e = bitlen a - bitlen b
      in if 2 powi e \<le> x then e else e - 1)"

definition round_half_even :: "rat \<Rightarrow> int" where
  \<comment> \<open>to the nearest integer, a tie going to the even one\<close>
  "round_half_even x =
     (let f = \<lfloor>x\<rfloor>; d = x - of_int f
      in if d < 1 / 2 then f else if 1 / 2 < d then f + 1 else if even f then f else f + 1)"

definition to_double :: "rat \<Rightarrow> pyfloat" where
  \<comment> \<open>the double nearest to \<open>x\<close>: 53 significant bits, exponents from \<open>- 1022\<close> (below it
      the spacing stays \<open>2 ^ - 1074\<close>), a tie going to the even significand, and an
      infinity once the rounded magnitude reaches \<open>2 ^ 1024\<close>\<close>
  "to_double x =
     (if x = 0 then Finite 0
      else
        (let e = max (floor_log2 \<bar>x\<bar>) (- 1022);
             q = 2 powi (e - 52);
             y = of_int (round_half_even (x / q)) * q
         in if 2 powi 1024 \<le> \<bar>y\<bar> then (if 0 < x then PosInf else NegInf) else Finite y))"


definition fadd :: "pyfloat \<Rightarrow> pyfloat \<Rightarrow> pyfloat" where
  \<comment> \<open>\<open>a + b\<close> on floats\<close>
  "fadd a b =
     (case a of
        NaN \<Rightarrow> NaN
      | Finite x \<Rightarrow> (case b of Finite y \<Rightarrow> to_double (x + y) | _ \<Rightarrow> b)
      | PosInf \<Rightarrow> (case b of NaN \<Rightarrow> NaN | NegInf \<Rightarrow> NaN | _ \<Rightarrow> PosInf)
      | NegInf \<Rightarrow> (case b of NaN \<Rightarrow> NaN | PosInf \<Rightarrow> NaN | _ \<Rightarrow> NegInf))"

definition fneg :: "pyfloat \<Rightarrow> pyfloat" where
  "fneg a = (case a of Finite x \<Rightarrow> Finite (- x) | PosInf \<Rightarrow> NegInf | NegInf \<Rightarrow> PosInf
             | NaN \<Rightarrow> NaN)"

definition fsub :: "pyfloat \<Rightarrow> pyfloat \<Rightarrow> pyfloat" where
  \<comment> \<open>\<open>a - b\<close> on floats\<close>
  "fsub a b = fadd a (fneg b)"

definition inf_times :: "pyfloat \<Rightarrow> rat \<Rightarrow> pyfloat" where
  \<comment> \<open>an infinity times a finite number\<close>
  "inf_times i x = (if x = 0 then NaN else if 0 < x then i else fneg i)"

definition fmul :: "pyfloat \<Rightarrow> pyfloat \<Rightarrow> pyfloat" where
  \<comment> \<open>\<open>a * b\<close> on floats\<close>
  "fmul a b =
     (case a of
        NaN \<Rightarrow> NaN
      | Finite x \<Rightarrow>
          (case b of Finite y \<Rightarrow> to_double (x * y) | NaN \<Rightarrow> NaN | _ \<Rightarrow> inf_times b x)
      | PosInf \<Rightarrow>
          (case b of Finite y \<Rightarrow> inf_times PosInf y | NaN \<Rightarrow> NaN | _ \<Rightarrow> b)
      | NegInf \<Rightarrow>
          (case b of Finite y \<Rightarrow> inf_times NegInf y | NaN \<Rightarrow> NaN | _ \<Rightarrow> fneg b))"

section \<open>The return calculator: \<open>app/utils/calculations.py\<close>\<close>

definition dict_item :: "('k \<times> 'v) list \<Rightarrow> 'k \<Rightarrow> py_error + 'v" where
  \<comment> \<open>\<open>d[k]\<close>, which raises on a missing key\<close>
  "dict_item d k = (case map_of d k of None \<Rightarrow> Inl KeyError | Some v \<Rightarrow> Inr v)"

record price_bar =
  bar_asset_id :: int
  bar_date :: date
  close_price :: decimal

fun twr_loop :: "(date \<times> pyfloat) list \<Rightarrow> date list \<Rightarrow> pyfloat \<Rightarrow> py_error + pyfloat" where
  \<comment> \<open>\<open>returns_product *= (1 + daily_returns[day])\<close>\<close>
  "twr_loop daily_returns [] returns_product = Inr returns_product"
| "twr_loop daily_returns (day # days) returns_product =
     (case dict_item daily_returns day of
        Inl e \<Rightarrow> Inl e
      | Inr r \<Rightarrow> twr_loop daily_returns days (fmul returns_product (fadd (Finite 1) r)))"

definition calculate_twr :: "(date \<times> pyfloat) list \<Rightarrow> py_error + pyfloat" where
  "calculate_twr daily_returns =
     (if daily_returns = [] then Inr (Finite 0)
      else
        (case twr_loop daily_returns (sort (map fst daily_returns)) (Finite 1) of
           Inl e \<Rightarrow> Inl e
         | Inr returns_product \<Rightarrow> Inr (fsub returns_product (Finite 1))))"

definition asset_prices_of :: "price_bar list \<Rightarrow> (int \<times> (date \<times> decimal) list) list" where
  \<comment> \<open>\<open>asset_prices[price.asset_id][price.date] = price.close_price\<close> on a
      \<open>defaultdict(dict)\<close>\<close>
  "asset_prices_of price_history =
     fold (\<lambda>price asset_prices.
             AList.update (bar_asset_id price)
               (AList.update (bar_date price) (close_price price)
                  (dict_get asset_prices (bar_asset_id price) []))
               asset_prices)
          price_history []"

definition all_dates_of :: "price_bar list \<Rightarrow> date list" where
  \<comment> \<open>\<open>sorted(list(set(p.date for p in price_history)))\<close>\<close>
  "all_dates_of price_history = sort (remdups (map bar_date price_history))"

definition day_value_of ::
  "(int \<times> (date \<times> decimal) list) list \<Rightarrow> allocation list \<Rightarrow> date \<Rightarrow> decimal" where
  \<comment> \<open>the inner loop; \<open>if price:\<close> skips a missing bar and a close price of zero\<close>
  "day_value_of asset_prices allocations day =
     fold (\<lambda>alloc day_value.
             (case map_of (dict_get asset_prices (asset_id alloc) []) day of
                None \<Rightarrow> day_value
              | Some price \<Rightarrow>
                  if price \<noteq> 0 then day_value + quantity alloc * price else day_value))
          allocations 0"

definition portfolio_value_of :: "allocation list \<Rightarrow> price_bar list \<Rightarrow> (date \<times> decimal) list" where
  \<comment> \<open>the dictionary \<open>portfolio_value\<close> after the loop over \<open>all_dates\<close>\<close>
  "portfolio_value_of allocations price_history =
     fold (\<lambda>day portfolio_value.
             (let day_value = day_value_of (asset_prices_of price_history) allocations day
              in if day_value > 0 then AList.update day day_value portfolio_value
                 else portfolio_value))
          (all_dates_of price_history) []"

fun returns_loop ::
  "(date \<times> decimal) list \<Rightarrow> date list \<Rightarrow> nat list \<Rightarrow> (date \<times> decimal) list
     \<Rightarrow> py_error + (date \<times> decimal) list" where
  "returns_loop portfolio_value sorted_days [] daily_returns = Inr daily_returns"
| "returns_loop portfolio_value sorted_days (i # rest) daily_returns =
     (if length sorted_days \<le> i then Inl IndexError
      else
        (let today = sorted_days ! i; yesterday = sorted_days ! (i - 1)
         in case dict_item portfolio_value yesterday of
              Inl e \<Rightarrow> Inl e
            | Inr vy \<Rightarrow>
                if vy > 0
                then (case dict_item portfolio_value today of
                        Inl e \<Rightarrow> Inl e
                      | Inr vt \<Rightarrow>
                          returns_loop portfolio_value sorted_days rest
                            (AList.update today ((vt - vy) / vy) daily_returns))
                else returns_loop portfolio_value sorted_days rest daily_returns))"

definition daily_returns_of :: "(date \<times> decimal) list \<Rightarrow> py_error + (date \<times> decimal) list" where
  \<comment> \<open>the second loop of \<open>calculate_daily_returns\<close>, from \<open>sorted_days = ...\<close> on\<close>
  "daily_returns_of portfolio_value =
     (let sorted_days = sort (map fst portfolio_value)
      in returns_loop portfolio_value sorted_days [1 ..< length sorted_days] [])"

definition calculate_daily_returns ::
  "allocation list \<Rightarrow> price_bar list \<Rightarrow> date \<Rightarrow> date
     \<Rightarrow> py_error + ((date \<times> decimal) list \<times> decimal \<times> decimal)" where
  "calculate_daily_returns allocations price_history start_date end_date =
     (let portfolio_value = portfolio_value_of allocations price_history;
          sorted_days = sort (map fst portfolio_value)
      in case daily_returns_of portfolio_value of
           Inl e \<Rightarrow> Inl e
         | Inr daily_returns \<Rightarrow>
             (let start_value = (if sorted_days \<noteq> []
                                 then dict_get portfolio_value (hd sorted_days) 0 else 0);
                  end_value = (if sorted_days \<noteq> []
                               then dict_get portfolio_value (last sorted_days) 0 else 0)
              in Inr (daily_returns, start_value, end_value)))"

section \<open>The dashboard aggregates: \<open>app/api/v1/dashboard.py\<close>\<close>


subsection \<open>Net new money\<close>

record net_new_money_data =
  period :: date
  inflows :: decimal
  outflows :: decimal
  net_flow :: decimal
  cumulative_net :: decimal
  period_type :: string

definition PeriodType :: "string list" where
  \<comment> \<open>the values of the enumeration \<open>PeriodType\<close> of \<open>app/schemas/performance.py\<close>\<close>
  "PeriodType = [''daily'', ''weekly'', ''monthly'', ''quarterly'', ''yearly'']"

definition NetNewMoneyData ::
  "date \<Rightarrow> decimal \<Rightarrow> decimal \<Rightarrow> decimal \<Rightarrow> decimal \<Rightarrow> string \<Rightarrow> py_error + net_new_money_data" where
  \<comment> \<open>the constructor validates \<open>period_type\<close> against the enumeration\<close>
  "NetNewMoneyData p i out n c pt =
     (if pt \<in> set PeriodType
      then Inr \<lparr>period = p, inflows = i, outflows = out, net_flow = n, cumulative_net = c,
                period_type = pt\<rparr>
      else Inl ValidationError)"

fun combine_flows ::
  "date list \<Rightarrow> (date \<times> decimal) list \<Rightarrow> (date \<times> decimal) list \<Rightarrow> string \<Rightarrow> decimal
     \<Rightarrow> py_error + net_new_money_data list" where
  \<comment> \<open>the loop \<open>for period_date in sorted(all_dates)\<close>; the last argument is
      \<open>cumulative_net\<close> on entry\<close>
  "combine_flows [] inflows_data outflows_data pt cumulative = Inr []"
| "combine_flows (period_date # rest) inflows_data outflows_data pt cumulative =
     (let i = dict_get inflows_data period_date 0;
          out = dict_get outflows_data period_date 0;
          n = i - out;
          cumulative' = cumulative + n
      in case NetNewMoneyData period_date i out n cumulative' pt of
           Inl e \<Rightarrow> Inl e
         | Inr row \<Rightarrow>
             (case combine_flows rest inflows_data outflows_data pt cumulative' of
                Inl e \<Rightarrow> Inl e
              | Inr response \<Rightarrow> Inr (row # response)))"

definition net_new_money_response ::
  "(date \<times> decimal) list \<Rightarrow> (date \<times> decimal) list \<Rightarrow> string \<Rightarrow> py_error + net_new_money_data list" where
  \<comment> \<open>\<open>all_dates = set(inflows_data.keys()) | set(outflows_data.keys())\<close> and the loop\<close>
  "net_new_money_response inflows_data outflows_data pt =
     combine_flows (sort (remdups (map fst inflows_data @ map fst outflows_data)))
       inflows_data outflows_data pt 0"








subsection \<open>Top advisors\<close>

record top_advisor_row =
  row_id :: int
  row_name :: string
  row_revenue :: decimal
  row_clients_count :: nat
  row_net_new_money :: decimal

record top_advisor_metric =
  tam_advisor_id :: int
  tam_advisor_name :: string
  tam_revenue :: decimal
  revenue_percentage :: decimal
  tam_net_new_money :: decimal
  tam_clients_count :: nat
  change_percent :: decimal

definition top_advisors_select :: "nat \<Rightarrow> py_error + unit" where
  \<comment> \<open>building the statement evaluates \<open>Advisor.outerjoin(Commission, ...)\<close>; \<open>Advisor\<close> is
      a mapped class and has no attribute \<open>outerjoin\<close> (a table has one), so the expression
      raises \<open>AttributeError\<close> before anything is sent to the database\<close>
  "top_advisors_select limit = Inl AttributeError"

definition decimal_div :: "decimal \<Rightarrow> decimal \<Rightarrow> py_error + decimal" where
  \<comment> \<open>\<open>Decimal\<close> division raises on a zero divisor\<close>
  "decimal_div x y = (if y = 0 then Inl DivisionByZero else Inr (x / y))"

fun top_advisors_loop :: "top_advisor_row list \<Rightarrow> decimal \<Rightarrow> py_error + top_advisor_metric list" where
  "top_advisors_loop [] total_revenue = Inr []"
| "top_advisors_loop (advisor # rest) total_revenue =
     (case (if total_revenue > 0
            then (case decimal_div (row_revenue advisor) total_revenue of
                    Inl e \<Rightarrow> Inl e
                  | Inr q \<Rightarrow> Inr (q * 100))
            else Inr 0) of
        Inl e \<Rightarrow> Inl e
      | Inr pct \<Rightarrow>
          (case top_advisors_loop rest total_revenue of
             Inl e \<Rightarrow> Inl e
           | Inr response \<Rightarrow>
               Inr (\<lparr>tam_advisor_id = row_id advisor, tam_advisor_name = row_name advisor,
                     tam_revenue = row_revenue advisor, revenue_percentage = pct,
                     tam_net_new_money = row_net_new_money advisor,
                     tam_clients_count = row_clients_count advisor,
                     change_percent = 31 / 2\<rparr> # response)))"

definition get_top_advisors ::
  "top_advisor_row list \<Rightarrow> decimal \<Rightarrow> nat \<Rightarrow> http_exception + top_advisor_metric list" where
  \<comment> \<open>the first two arguments are what the database would answer to the two statements:
      the rows of the advisors and the total of \<open>gross_revenue\<close>. Every exception raised in
      the body is answered with status 500.
      \<open>total_revenue = scalar() or Decimal('1')\<close>: a total of zero is falsy\<close>
  "get_top_advisors fetched scalar limit =
     (case top_advisors_select limit of
        Inl e \<Rightarrow> Inl (HTTPException 500 ''Error fetching top advisors'')
      | Inr query \<Rightarrow>
          (let top_advisors = fetched;
               total_revenue = (if scalar \<noteq> 0 then scalar else 1)
           in case top_advisors_loop top_advisors total_revenue of
                Inl e \<Rightarrow> Inl (HTTPException 500 ''Error fetching top advisors'')
              | Inr response \<Rightarrow> Inr response))"

section \<open>Example data\<close>

definition example_position :: allocation where
  \<comment> \<open>50 units bought at 20 with fees of 10, still open\<close>
  "example_position =
     \<lparr>ident = 1, client_id = 1, asset_id = 7, quantity = 50, purchase_price = 20,
      purchase_date = 0, total_invested = 1000, fees = 10, is_active = True,
      position_type = ''long'', exit_price = None, exit_date = None, exit_fees = 0,
      last_price_check = None, unrealized_gain_loss = None,
      unrealized_gain_loss_percent = None, realized_gain_loss = None,
      alloc_notes = None, order_id = None, asset = None\<rparr>"

definition closed_position :: allocation where
  \<comment> \<open>the same position after it was sold at 25 with exit fees of 5\<close>
  "closed_position =
     example_position\<lparr>is_active := False, exit_price := Some 25, exit_date := Some 172800,
                      exit_fees := 5, realized_gain_loss := Some 235\<rparr>"

definition example_db :: database where
  "example_db =
     \<lparr>db_clients = [1 \<mapsto> ()],
      db_assets = [7 \<mapsto> \<lparr>asset_ident = 7, current_price = Some 24\<rparr>],
      db_allocations = [1 \<mapsto> closed_position],
      db_next_id = 2\<rparr>"



section \<open>The specification's value of a portfolio on a day\<close>

definition close_on :: "price_bar list \<Rightarrow> int \<Rightarrow> date \<Rightarrow> decimal option" where
  \<comment> \<open>the close price of the asset's bar on that exact date, when there is one (the table
      holds one bar for an asset and a date; were there several, the last one is read)\<close>
  "close_on price_history aid d =
     map_option close_price
       (find (\<lambda>b. bar_asset_id b = aid \<and> bar_date b = d) (rev price_history))"

definition computed_value :: "allocation list \<Rightarrow> price_bar list \<Rightarrow> date \<Rightarrow> decimal" where
  \<comment> \<open>the sum over the allocations of quantity times that close price\<close>
  "computed_value allocations price_history d =
     sum_list (map (\<lambda>a. case close_on price_history (asset_id a) d of
                          None \<Rightarrow> 0
                        | Some p \<Rightarrow> quantity a * p)
                 allocations)"

definition one_hundred_units :: allocation where
  \<comment> \<open>100 units of asset 7 bought at 10\<close>
  "one_hundred_units =
     example_position\<lparr>quantity := 100, purchase_price := 10, fees := 0\<rparr>"

definition two_bars :: "price_bar list" where
  \<comment> \<open>asset 7 closes at 10 on day 1 and at 12 on day 3; there is no bar on day 2\<close>
  "two_bars =
     [\<lparr>bar_asset_id = 7, bar_date = 1, close_price = 10\<rparr>,
      \<lparr>bar_asset_id = 7, bar_date = 3, close_price = 12\<rparr>]"







definition no_revenue_rows :: "top_advisor_row list" where
  \<comment> \<open>the rows of two advisors without revenue, clients or allocations\<close>
  "no_revenue_rows =
     [\<lparr>row_id = 1, row_name = ''Ana'', row_revenue = 0, row_clients_count = 0,
       row_net_new_money = 0\<rparr>,
      \<lparr>row_id = 2, row_name = ''Rui'', row_revenue = 0, row_clients_count = 0,
       row_net_new_money = 0\<rparr>]"

section \<open>Closing a position\<close>

text \<open>
  Claim C1. Closing an open allocation at a positive exit price, with an optional exit date
  and optional nonnegative exit fees, clears \<open>is_active\<close>, stores the exit price, the exit
  date (the current time when none is given) and the exit fees (0 when none are given),
  sets \<open>realized_gain_loss\<close> to \<open>quantity * exit_price - (total_invested + fees + exit_fees)\<close>
  and sets both unrealized fields to \<open>None\<close>.
\<close>

theorem close_position_fields:
  assumes "is_active a" and "0 < ep" and "case ef of None \<Rightarrow> True | Some f \<Rightarrow> 0 \<le> f"
  shows "is_active (close_position a ep ed ef now) = False
       \<and> exit_price (close_position a ep ed ef now) = Some ep
       \<and> exit_date (close_position a ep ed ef now) = Some (case ed of None \<Rightarrow> now | Some d \<Rightarrow> d)
       \<and> exit_fees (close_position a ep ed ef now) = (case ef of None \<Rightarrow> 0 | Some f \<Rightarrow> f)
       \<and> realized_gain_loss (close_position a ep ed ef now)
           = Some (quantity a * ep
                   - (total_invested a + fees a + (case ef of None \<Rightarrow> 0 | Some f \<Rightarrow> f)))
       \<and> unrealized_gain_loss (close_position a ep ed ef now) = None
       \<and> unrealized_gain_loss_percent (close_position a ep ed ef now) = None"
  by (cases ef; cases ed) (simp_all add: close_position_def total_cost_def Let_def)

text \<open>The example of the specification: 50 units, 1000 invested, fees 10, sold at 25 with
  exit fees 5, give a realized gain of 235.\<close>

theorem close_position_fields_witness:
  "is_active example_position \<and> (0::decimal) < 25
   \<and> realized_gain_loss (close_position example_position 25 None (Some 5) 0) = Some 235
   \<and> exit_date (close_position example_position 25 None (Some 5) 0) = Some 0
   \<and> exit_fees (close_position example_position 25 None (Some 5) 0) = 5
   \<and> is_active (close_position example_position 25 None (Some 5) 0) = False"
  using close_position_fields [of example_position 25 "Some 5" None 0]
  by (simp add: example_position_def)

section \<open>Time-weighted return\<close>

subsection \<open>Rounding to the nearest double\<close>

text \<open>
  \<^const>\<open>floor_log2\<close> finds the binade of a positive rational; \<^const>\<open>to_double\<close> returns a
  value that rounding leaves unchanged, within half a unit in the last place of its
  argument, and finite below \<open>2 ^ 1023\<close>.
\<close>

lemma pow2_bitlen:
  assumes "0 < a"
  shows "(2::rat) powi (bitlen a - 1) \<le> of_int a" and "of_int a < (2::rat) powi bitlen a"
proof -
  from assms have pos: "1 \<le> bitlen a"
    using bitlen_eq_zero_iff [of a] bitlen_nonneg [of a] by linarith
  from bitlen_bounds [OF assms] have lo: "2 ^ nat (bitlen a - 1) \<le> a"
    and hi: "a < 2 ^ nat (bitlen a)" by simp_all
  have "(2::rat) powi (bitlen a - 1) = of_int (2 ^ nat (bitlen a - 1))"
    using pos by (simp add: power_int_def)
  also have "\<dots> \<le> of_int a" using lo by (simp only: of_int_le_iff)
  finally show "(2::rat) powi (bitlen a - 1) \<le> of_int a" .
  have "(of_int a :: rat) < of_int (2 ^ nat (bitlen a))" using hi by (simp only: of_int_less_iff)
  also have "\<dots> = 2 powi bitlen a" using pos by (simp add: power_int_def)
  finally show "of_int a < (2::rat) powi bitlen a" .
qed

lemma floor_log2_bounds:
  assumes "0 < x"
  shows "2 powi floor_log2 x \<le> x" and "x < 2 powi (floor_log2 x + 1)"
proof -
  obtain a b where q: "quotient_of x = (a, b)" by force
  have b: "0 < b" using quotient_of_denom_pos [OF q] .
  have x: "x = of_int a / of_int b" using quotient_of_div [OF q] .
  have a: "0 < a"
  proof (rule ccontr)
    assume "\<not> 0 < a"
    then have "of_int a \<le> (0::rat)" by simp
    with b have "of_int a / of_int b \<le> (0::rat)" by (simp add: divide_nonpos_pos)
    with x assms show False by simp
  qed
  let ?e = "bitlen a - bitlen b"
  have upper: "x < 2 powi (?e + 1)"
  proof -
    have "of_int a / of_int b < (2::rat) powi bitlen a / 2 powi (bitlen b - 1)"
      using a b pow2_bitlen(2) [OF a] pow2_bitlen(1) [OF b]
      by (intro frac_less) simp_all
    also have "\<dots> = 2 powi (bitlen a - (bitlen b - 1))"
      by (simp add: power_int_diff)
    finally show ?thesis by (simp add: x algebra_simps)
  qed
  have lower: "2 powi (?e - 1) < x"
  proof -
    have "(2::rat) powi (bitlen a - 1) / 2 powi bitlen b < of_int a / of_int b"
      using a b pow2_bitlen(1) [OF a] pow2_bitlen(2) [OF b]
      by (intro frac_less2) simp_all
    moreover have "(2::rat) powi (bitlen a - 1) / 2 powi bitlen b = 2 powi (bitlen a - 1 - bitlen b)"
      by (simp add: power_int_diff)
    ultimately show ?thesis by (simp add: x algebra_simps)
  qed
  have fl: "floor_log2 x = (if 2 powi ?e \<le> x then ?e else ?e - 1)"
    by (simp add: floor_log2_def q Let_def)
  show "2 powi floor_log2 x \<le> x"
    using lower by (simp add: fl)
  show "x < 2 powi (floor_log2 x + 1)"
    using upper by (auto simp: fl)
qed

lemma pow2_less_imp_less:
  assumes "(2::rat) powi m < 2 powi n"
  shows "m < n"
proof (rule ccontr)
  assume "\<not> m < n"
  then have "n \<le> m" by simp
  then have "(2::rat) powi n \<le> 2 powi m" by (rule power_int_increasing) simp
  with assms show False by simp
qed

lemma floor_log2_unique:
  assumes "0 < x" and "2 powi e \<le> x" and "x < 2 powi (e + 1)"
  shows "floor_log2 x = e"
proof -
  have "(2::rat) powi floor_log2 x < 2 powi (e + 1)"
    using floor_log2_bounds(1) [OF assms(1)] assms(3) by simp
  then have "floor_log2 x < e + 1"
    by (rule pow2_less_imp_less)
  moreover have "(2::rat) powi e < 2 powi (floor_log2 x + 1)"
    using floor_log2_bounds(2) [OF assms(1)] assms(2) by simp
  then have "e < floor_log2 x + 1"
    by (rule pow2_less_imp_less)
  ultimately show ?thesis by simp
qed


lemma round_half_even_of_int: "round_half_even (of_int n) = n"
  by (simp add: round_half_even_def)

lemma round_half_even_ge: "of_int a \<le> x \<Longrightarrow> a \<le> round_half_even x"
proof -
  assume "of_int a \<le> x"
  then have "a \<le> \<lfloor>x\<rfloor>" by (simp add: le_floor_iff)
  then show ?thesis by (simp add: round_half_even_def Let_def)
qed

lemma round_half_even_le: "x \<le> of_int b \<Longrightarrow> round_half_even x \<le> b"
proof -
  assume le: "x \<le> of_int b"
  then have f: "\<lfloor>x\<rfloor> \<le> b" by (metis floor_mono floor_of_int)
  show ?thesis
  proof (cases "\<lfloor>x\<rfloor> = b")
    case True
    have "of_int \<lfloor>x\<rfloor> \<le> x" by (rule of_int_floor_le)
    with le True have "x = of_int b" by simp
    then show ?thesis by (simp add: round_half_even_of_int)
  next
    case False
    with f have "\<lfloor>x\<rfloor> + 1 \<le> b" by simp
    then show ?thesis by (simp add: round_half_even_def Let_def)
  qed
qed

lemma round_half_even_near: "\<bar>of_int (round_half_even x) - x\<bar> \<le> 1 / 2"
proof -
  have lo: "of_int \<lfloor>x\<rfloor> \<le> x" by (rule of_int_floor_le)
  have hi: "x < of_int \<lfloor>x\<rfloor> + 1" by linarith
  show ?thesis
    unfolding round_half_even_def Let_def
    using lo hi by (auto simp: abs_le_iff)
qed


lemma pow2_split:
  "(2::rat) ^ 53 * 2 powi (e - 52) = 2 powi (e + 1)"
  "(2::rat) ^ 52 * 2 powi (e - 52) = 2 powi e"
  "(2::rat) powi (e + 1 - 52) = 2 * 2 powi (e - 52)"
proof -
  have a: "(2::rat) powi (53 + (e - 52)) = 2 powi 53 * 2 powi (e - 52)"
    by (rule power_int_add) simp
  have b: "(2::rat) powi (52 + (e - 52)) = 2 powi 52 * 2 powi (e - 52)"
    by (rule power_int_add) simp
  have c: "(2::rat) powi (1 + (e - 52)) = 2 powi 1 * 2 powi (e - 52)"
    by (rule power_int_add) simp
  have ea: "53 + (e - 52) = e + 1" and eb: "52 + (e - 52) = e" and ec: "1 + (e - 52) = e + 1 - 52"
    by simp_all
  show "(2::rat) ^ 53 * 2 powi (e - 52) = 2 powi (e + 1)"
    using a unfolding ea by (simp only: power_int_numeral)
  show "(2::rat) ^ 52 * 2 powi (e - 52) = 2 powi e"
    using b unfolding eb by (simp only: power_int_numeral)
  show "(2::rat) powi (e + 1 - 52) = 2 * 2 powi (e - 52)"
    using c unfolding ec by (simp only: power_int_1_right)
qed


lemma to_double_fixed_aux:
  assumes "y \<noteq> 0" and "max (floor_log2 \<bar>y\<bar>) (- 1022) = e'"
    and "of_int (round_half_even (y / 2 powi (e' - 52))) * 2 powi (e' - 52) = y"
    and "\<bar>y\<bar> < 2 powi 1024"
  shows "to_double y = Finite y"
  using assms by (simp add: to_double_def Let_def)

lemma double_repr_fixed:
  assumes e: "- 1022 \<le> e" and n: "\<bar>n\<bar> \<le> 2 ^ 53" and norm: "2 ^ 52 \<le> \<bar>n\<bar> \<or> e = - 1022"
    and fin: "\<bar>of_int n * (2::rat) powi (e - 52)\<bar> < 2 powi 1024"
  shows "to_double (of_int n * 2 powi (e - 52)) = Finite (of_int n * 2 powi (e - 52))"
proof (cases "n = 0")
  case True
  then show ?thesis by (simp add: to_double_def)
next
  case False
  define q :: rat where "q = 2 powi (e - 52)"
  define y :: rat where "y = of_int n * q"
  have q: "0 < q" by (simp add: q_def)
  have y0: "y \<noteq> 0" using False q by (simp add: y_def)
  have y_pos: "0 < \<bar>y\<bar>" using y0 by simp
  have absy: "\<bar>y\<bar> = of_int \<bar>n\<bar> * q" using q by (simp add: y_def abs_mult)
  have p53: "(2::rat) ^ 53 * q = 2 powi (e + 1)" unfolding q_def by (rule pow2_split)
  have p52: "(2::rat) ^ 52 * q = 2 powi e" unfolding q_def by (rule pow2_split)
  have q2: "(2::rat) powi (e + 1 - 52) = 2 * q" unfolding q_def by (rule pow2_split)
  have fin': "\<bar>y\<bar> < 2 powi 1024" using fin by (simp only: y_def q_def)
  have "to_double y = Finite y"
  proof (cases "\<bar>n\<bar> = 2 ^ 53")
    case True
    have "(of_int \<bar>n\<bar> :: rat) = 2 ^ 53" by (simp only: True of_int_power of_int_numeral)
    then have ay: "\<bar>y\<bar> = 2 powi (e + 1)" using p53 by (simp only: absy)
    have "floor_log2 \<bar>y\<bar> = e + 1"
    proof (rule floor_log2_unique)
      show "0 < \<bar>y\<bar>" by (rule y_pos)
      show "2 powi (e + 1) \<le> \<bar>y\<bar>" by (simp only: ay order_refl)
      show "\<bar>y\<bar> < 2 powi (e + 1 + 1)"
        unfolding ay by (rule power_int_strict_increasing) simp_all
    qed
    then have ex: "max (floor_log2 \<bar>y\<bar>) (- 1022) = e + 1" using e by simp
    have "even \<bar>n\<bar>" unfolding True by simp
    then have "even n" by (simp only: dvd_abs_iff)
    then obtain m where m: "n = 2 * m" by (auto elim: evenE)
    have "y / (2 * q) = of_int m" using q by (simp add: y_def m)
    then have "of_int (round_half_even (y / (2 * q))) * (2 * q) = y"
      using q by (simp only: round_half_even_of_int) (simp add: y_def m)
    then have "of_int (round_half_even (y / 2 powi (e + 1 - 52))) * 2 powi (e + 1 - 52) = y"
      by (simp only: q2)
    from to_double_fixed_aux [OF y0 ex this fin'] show ?thesis .
  next
    case False
    with n have lt: "\<bar>n\<bar> < 2 ^ 53" by simp
    have "(of_int \<bar>n\<bar> :: rat) < of_int (2 ^ 53)" using lt by (simp only: of_int_less_iff)
    then have "(of_int \<bar>n\<bar> :: rat) < 2 ^ 53" by (simp only: of_int_power of_int_numeral)
    then have "of_int \<bar>n\<bar> * q < 2 ^ 53 * q" using q by (rule mult_strict_right_mono)
    then have up: "\<bar>y\<bar> < 2 powi (e + 1)" by (simp only: absy p53)
    have "(2::rat) powi floor_log2 \<bar>y\<bar> < 2 powi (e + 1)"
      using floor_log2_bounds(1) [OF y_pos] up by (rule le_less_trans)
    then have "floor_log2 \<bar>y\<bar> < e + 1" by (rule pow2_less_imp_less)
    then have r_le: "floor_log2 \<bar>y\<bar> \<le> e" by simp
    have ex: "max (floor_log2 \<bar>y\<bar>) (- 1022) = e"
    proof (cases "2 ^ 52 \<le> \<bar>n\<bar>")
      case True
      then have "(of_int (2 ^ 52) :: rat) \<le> of_int \<bar>n\<bar>" by (simp only: of_int_le_iff)
      then have "(2::rat) ^ 52 \<le> of_int \<bar>n\<bar>" by (simp only: of_int_power of_int_numeral)
      then have "2 ^ 52 * q \<le> of_int \<bar>n\<bar> * q" using q by (intro mult_right_mono) simp_all
      then have "2 powi e \<le> \<bar>y\<bar>" by (simp only: absy p52)
      then have "(2::rat) powi e < 2 powi (floor_log2 \<bar>y\<bar> + 1)"
        using floor_log2_bounds(2) [OF y_pos] by (rule le_less_trans)
      then have "e < floor_log2 \<bar>y\<bar> + 1" by (rule pow2_less_imp_less)
      with r_le e show ?thesis by simp
    next
      case False
      with norm have "e = - 1022" by simp
      with r_le show ?thesis by simp
    qed
    have "y / q = of_int n" using q by (simp add: y_def)
    then have "of_int (round_half_even (y / q)) * q = y"
      by (simp only: round_half_even_of_int y_def)
    then have "of_int (round_half_even (y / 2 powi (e - 52))) * 2 powi (e - 52) = y"
      by (simp only: q_def)
    from to_double_fixed_aux [OF y0 ex this fin'] show ?thesis .
  qed
  then show ?thesis by (simp only: y_def q_def)
qed


lemma round_half_even_abs_le:
  assumes "0 < q" and "\<bar>x\<bar> \<le> of_int b * q"
  shows "\<bar>round_half_even (x / q)\<bar> \<le> b"
proof -
  from assms have "\<bar>x\<bar> / q \<le> of_int b" by (simp add: pos_divide_le_eq)
  moreover have "\<bar>x / q\<bar> = \<bar>x\<bar> / q" using assms(1) by (simp add: abs_divide)
  ultimately have h: "\<bar>x / q\<bar> \<le> of_int b" by (simp only:)
  have "x / q \<le> of_int b" using h by linarith
  moreover have "- of_int b \<le> x / q" using h by linarith
  then have "of_int (- b) \<le> x / q" by simp
  ultimately have "x / q \<le> of_int b" and "of_int (- b) \<le> x / q" by blast+
  then have "round_half_even (x / q) \<le> b" and "- b \<le> round_half_even (x / q)"
    by (simp_all only: round_half_even_le round_half_even_ge)
  then show ?thesis by simp
qed

lemma round_half_even_abs_ge:
  assumes "0 < q" and "of_int a * q \<le> \<bar>x\<bar>"
  shows "a \<le> \<bar>round_half_even (x / q)\<bar>"
proof (cases "0 \<le> x")
  case True
  with assms have "of_int a \<le> x / q" by (simp add: pos_le_divide_eq)
  then have "a \<le> round_half_even (x / q)" by (rule round_half_even_ge)
  then show ?thesis by simp
next
  case False
  with assms have "of_int a * q \<le> - x" by simp
  then have "x / q \<le> of_int (- a)" using assms(1) by (simp add: pos_divide_le_eq)
  then have "round_half_even (x / q) \<le> - a" by (rule round_half_even_le)
  then show ?thesis by simp
qed

lemma to_double_repr:
  assumes "to_double x = Finite y"
  shows "\<exists>e n. - 1022 \<le> e \<and> \<bar>n\<bar> \<le> 2 ^ 53 \<and> (2 ^ 52 \<le> \<bar>n\<bar> \<or> e = - 1022)
           \<and> y = of_int n * 2 powi (e - 52) \<and> \<bar>y\<bar> < 2 powi 1024"
proof (cases "x = 0")
  case True
  with assms have "y = 0" by (simp add: to_double_def)
  then have "- 1022 \<le> (- 1022 :: int) \<and> \<bar>0::int\<bar> \<le> 2 ^ 53 \<and> (2 ^ 52 \<le> \<bar>0::int\<bar> \<or> (- 1022 :: int) = - 1022)
           \<and> y = of_int 0 * 2 powi (- 1022 - 52) \<and> \<bar>y\<bar> < 2 powi 1024"
    by simp
  then show ?thesis by blast
next
  case False
  define e where "e = max (floor_log2 \<bar>x\<bar>) (- 1022)"
  define q :: rat where "q = 2 powi (e - 52)"
  define n where "n = round_half_even (x / q)"
  have q: "0 < q" by (simp add: q_def)
  have x_pos: "0 < \<bar>x\<bar>" using False by simp
  have p53: "(2::rat) ^ 53 * q = 2 powi (e + 1)" unfolding q_def by (rule pow2_split)
  have p52: "(2::rat) ^ 52 * q = 2 powi e" unfolding q_def by (rule pow2_split)
  from assms False have res: "y = of_int n * q" and fin: "\<bar>y\<bar> < 2 powi 1024"
    by (simp_all add: to_double_def Let_def e_def [symmetric] q_def [symmetric] n_def [symmetric]
        split: if_splits)
  have "floor_log2 \<bar>x\<bar> + 1 \<le> e + 1" by (simp add: e_def)
  then have "(2::rat) powi (floor_log2 \<bar>x\<bar> + 1) \<le> 2 powi (e + 1)"
    by (rule power_int_increasing) simp
  with floor_log2_bounds(2) [OF x_pos] have "\<bar>x\<bar> < 2 powi (e + 1)" by simp
  moreover have "of_int (2 ^ 53) * q = 2 powi (e + 1)"
    by (simp only: of_int_power of_int_numeral p53)
  ultimately have "\<bar>x\<bar> \<le> of_int (2 ^ 53) * q" by (simp only: less_imp_le)
  with q have n_le: "\<bar>n\<bar> \<le> 2 ^ 53" unfolding n_def by (rule round_half_even_abs_le)
  have n_ge: "2 ^ 52 \<le> \<bar>n\<bar> \<or> e = - 1022"
  proof (cases "e = - 1022")
    case True
    then show ?thesis by simp
  next
    case False
    then have "e = floor_log2 \<bar>x\<bar>" by (simp add: e_def max_def split: if_splits)
    with floor_log2_bounds(1) [OF x_pos] have "2 powi e \<le> \<bar>x\<bar>" by simp
    moreover have "of_int (2 ^ 52) * q = 2 powi e"
      by (simp only: of_int_power of_int_numeral p52)
    ultimately have "of_int (2 ^ 52) * q \<le> \<bar>x\<bar>" by (simp only:)
    with q have "2 ^ 52 \<le> \<bar>n\<bar>" unfolding n_def by (rule round_half_even_abs_ge)
    then show ?thesis by simp
  qed
  have "- 1022 \<le> e" by (simp add: e_def)
  with n_le n_ge res fin show ?thesis unfolding q_def by blast
qed

lemma to_double_idem:
  assumes "to_double x = Finite y"
  shows "to_double y = Finite y"
proof -
  from to_double_repr [OF assms] obtain e n where "- 1022 \<le> e" "\<bar>n\<bar> \<le> 2 ^ 53"
    "2 ^ 52 \<le> \<bar>n\<bar> \<or> e = - 1022" and y: "y = of_int n * 2 powi (e - 52)"
    and "\<bar>y\<bar> < 2 powi 1024" by blast
  then show ?thesis unfolding y by (intro double_repr_fixed)
qed


lemma to_double_eval:
  assumes x: "x \<noteq> 0" and lo: "2 powi e \<le> \<bar>x\<bar>" and hi: "\<bar>x\<bar> < 2 powi (e + 1)"
    and e: "- 1022 \<le> e" "e \<le> 1022"
    and n: "round_half_even (x / 2 powi (e - 52)) = n"
  shows "to_double x = Finite (of_int n * 2 powi (e - 52))"
proof -
  define q :: rat where "q = 2 powi (e - 52)"
  have q: "0 < q" by (simp add: q_def)
  have x_pos: "0 < \<bar>x\<bar>" using x by simp
  have fl: "floor_log2 \<bar>x\<bar> = e" using x_pos lo hi by (rule floor_log2_unique)
  have ex: "max (floor_log2 \<bar>x\<bar>) (- 1022) = e" using fl e by simp
  have p53: "of_int (2 ^ 53) * q = 2 powi (e + 1)"
    unfolding q_def by (simp only: of_int_power of_int_numeral pow2_split)
  have "\<bar>x\<bar> \<le> of_int (2 ^ 53) * q" using hi by (simp only: p53 less_imp_le)
  with q have "\<bar>round_half_even (x / q)\<bar> \<le> 2 ^ 53" by (rule round_half_even_abs_le)
  then have n53: "\<bar>n\<bar> \<le> 2 ^ 53" using n by (simp only: q_def)
  have "\<bar>of_int n * q\<bar> = of_int \<bar>n\<bar> * q" using q by (simp add: abs_mult)
  also have "\<dots> \<le> of_int (2 ^ 53) * q"
    using n53 q by (intro mult_right_mono) (simp_all only: of_int_le_iff less_imp_le)
  also have "\<dots> = 2 powi (e + 1)" by (rule p53)
  also have "\<dots> < 2 powi 1024" using e by (intro power_int_strict_increasing) simp_all
  finally have fin: "\<not> 2 powi 1024 \<le> \<bar>of_int n * q\<bar>" by simp
  show ?thesis
    using x fin n unfolding to_double_def ex Let_def q_def by simp
qed

lemma to_double_error:
  assumes res: "to_double x = Finite y" and hi: "\<bar>x\<bar> < 2 powi (e + 1)" and e: "- 1022 \<le> e"
  shows "\<bar>y - x\<bar> \<le> 2 powi (e - 53)"
proof (cases "x = 0")
  case True
  with res have "y = 0" by (simp add: to_double_def)
  with True show ?thesis by simp
next
  case False
  define e' where "e' = max (floor_log2 \<bar>x\<bar>) (- 1022)"
  define q :: rat where "q = 2 powi (e' - 52)"
  define n where "n = round_half_even (x / q)"
  have q: "0 < q" by (simp add: q_def)
  have x_pos: "0 < \<bar>x\<bar>" using False by simp
  from res False have y: "y = of_int n * q"
    by (simp add: to_double_def Let_def e'_def [symmetric] q_def [symmetric] n_def [symmetric]
        split: if_splits)
  have "(2::rat) powi floor_log2 \<bar>x\<bar> < 2 powi (e + 1)"
    using floor_log2_bounds(1) [OF x_pos] hi by (rule le_less_trans)
  then have "floor_log2 \<bar>x\<bar> < e + 1" by (rule pow2_less_imp_less)
  with e have "e' \<le> e" by (simp add: e'_def)
  have "y - x = (of_int n - x / q) * q" using q by (simp add: y algebra_simps)
  then have "\<bar>y - x\<bar> = \<bar>of_int n - x / q\<bar> * q" using q by (simp add: abs_mult)
  also have "\<dots> \<le> (1 / 2) * q"
    using q round_half_even_near [of "x / q"] unfolding n_def
    by (intro mult_right_mono) simp_all
  also have "\<dots> = 2 powi (e' - 53)"
  proof -
    have "(2::rat) powi (1 + (e' - 53)) = 2 powi 1 * 2 powi (e' - 53)"
      by (rule power_int_add) simp
    moreover have "1 + (e' - 53) = e' - 52" by simp
    ultimately show ?thesis by (simp add: q_def)
  qed
  also have "\<dots> \<le> 2 powi (e - 53)"
    using \<open>e' \<le> e\<close> by (intro power_int_increasing) simp_all
  finally show ?thesis .
qed

lemma fmul_one_to_double: "fmul (Finite 1) (to_double x) = to_double x"
proof (cases "to_double x")
  case (Finite y)
  then have "to_double y = Finite y" by (rule to_double_idem)
  with Finite show ?thesis by (simp add: fmul_def)
qed (simp_all add: fmul_def inf_times_def fneg_def)

lemma fmul_one_fadd: "fmul (Finite 1) (fadd a b) = fadd a b"
  by (cases a; cases b) (simp_all add: fadd_def fmul_one_to_double, simp_all add: fmul_def inf_times_def fneg_def)

lemma fmul_commute: "fmul a b = fmul b a"
  by (cases a; cases b) (simp_all add: fmul_def inf_times_def fneg_def mult.commute)

subsection \<open>The doubles of the examples\<close>

text \<open>
  \<open>0.1\<close> is the double \<open>3602879701896397 / 2 ^ 55\<close> and \<open>0.2\<close> the double
  \<open>3602879701896397 / 2 ^ 54\<close>; \<open>0.5\<close> and \<open>1.5\<close> are exact.
\<close>

lemma double_tenth: "to_double (1 / 10) = Finite (3602879701896397 / 36028797018963968)"
proof -
  have "to_double (1 / 10) = Finite (of_int 7205759403792794 * 2 powi (- 4 - 52))"
  proof (rule to_double_eval)
    show "round_half_even ((1 / 10) / 2 powi (- 4 - 52)) = 7205759403792794" by code_simp
  qed simp_all
  then show ?thesis by simp
qed

lemma double_one_plus_tenth: "to_double (1 + 3602879701896397 / 36028797018963968) = Finite (2476979795053773 / 2251799813685248)"
proof -
  have "to_double (1 + 3602879701896397 / 36028797018963968) = Finite (of_int 4953959590107546 * 2 powi (0 - 52))"
  proof (rule to_double_eval)
    show "round_half_even ((1 + 3602879701896397 / 36028797018963968) / 2 powi (0 - 52)) = 4953959590107546" by code_simp
  qed simp_all
  then show ?thesis by simp
qed

lemma double_eleven_tenths_minus_one: "to_double (2476979795053773 / 2251799813685248 + - 1) = Finite (225179981368525 / 2251799813685248)"
proof -
  have "to_double (2476979795053773 / 2251799813685248 + - 1) = Finite (of_int 7205759403792800 * 2 powi (- 4 - 52))"
  proof (rule to_double_eval)
    show "round_half_even ((2476979795053773 / 2251799813685248 + - 1) / 2 powi (- 4 - 52)) = 7205759403792800" by code_simp
  qed simp_all
  then show ?thesis by simp
qed

lemma double_one_plus_half: "to_double (1 + 1 / 2) = Finite (3 / 2)"
proof -
  have "to_double (1 + 1 / 2) = Finite (of_int 6755399441055744 * 2 powi (0 - 52))"
  proof (rule to_double_eval)
    show "round_half_even ((1 + 1 / 2) / 2 powi (0 - 52)) = 6755399441055744" by code_simp
  qed simp_all
  then show ?thesis by simp
qed

lemma double_one_plus_fifth: "to_double (1 + 3602879701896397 / 18014398509481984) = Finite (5404319552844595 / 4503599627370496)"
proof -
  have "to_double (1 + 3602879701896397 / 18014398509481984) = Finite (of_int 5404319552844595 * 2 powi (0 - 52))"
  proof (rule to_double_eval)
    show "round_half_even ((1 + 3602879701896397 / 18014398509481984) / 2 powi (0 - 52)) = 5404319552844595" by code_simp
  qed simp_all
  then show ?thesis by simp
qed

lemma double_product: "to_double (3 / 2 * (5404319552844595 / 4503599627370496)) = Finite (2026619832316723 / 1125899906842624)"
proof -
  have "to_double (3 / 2 * (5404319552844595 / 4503599627370496)) = Finite (of_int 8106479329266892 * 2 powi (0 - 52))"
  proof (rule to_double_eval)
    show "round_half_even ((3 / 2 * (5404319552844595 / 4503599627370496)) / 2 powi (0 - 52)) = 8106479329266892" by code_simp
  qed simp_all
  then show ?thesis by simp
qed

lemma double_product_minus_one: "to_double (2026619832316723 / 1125899906842624 + - 1) = Finite (900719925474099 / 1125899906842624)"
proof -
  have "to_double (2026619832316723 / 1125899906842624 + - 1) = Finite (of_int 7205759403792792 * 2 powi (- 1 - 52))"
  proof (rule to_double_eval)
    show "round_half_even ((2026619832316723 / 1125899906842624 + - 1) / 2 powi (- 1 - 52)) = 7205759403792792" by code_simp
  qed simp_all
  then show ?thesis by simp
qed


lemma double_three_halves_minus_one: "to_double (3 / 2 + - 1) = Finite (1 / 2)"
proof -
  have "to_double (3 / 2 + - 1) = Finite (of_int 4503599627370496 * 2 powi (- 1 - 52))"
  proof (rule to_double_eval)
    show "round_half_even ((3 / 2 + - 1) / 2 powi (- 1 - 52)) = 4503599627370496" by code_simp
  qed simp_all
  then show ?thesis by simp
qed

lemma one_plus_tenth:
  "fadd (Finite 1) (Finite (3602879701896397 / 36028797018963968))
   = Finite (2476979795053773 / 2251799813685248)"
  by (simp only: fadd_def pyfloat.case double_one_plus_tenth)

lemma eleven_tenths_minus_one:
  "fsub (Finite (2476979795053773 / 2251799813685248)) (Finite 1)
   = Finite (225179981368525 / 2251799813685248)"
  by (simp only: fsub_def fneg_def fadd_def pyfloat.case double_eleven_tenths_minus_one)

lemma one_plus_half: "fadd (Finite 1) (Finite (1 / 2)) = Finite (3 / 2)"
  by (simp only: fadd_def pyfloat.case double_one_plus_half)

lemma three_halves_minus_one: "fsub (Finite (3 / 2)) (Finite 1) = Finite (1 / 2)"
  by (simp only: fsub_def fneg_def fadd_def pyfloat.case double_three_halves_minus_one)

lemma one_plus_fifth:
  "fadd (Finite 1) (Finite (3602879701896397 / 18014398509481984))
   = Finite (5404319552844595 / 4503599627370496)"
  by (simp only: fadd_def pyfloat.case double_one_plus_fifth)

lemma three_halves_times_six_fifths:
  "fmul (Finite (3 / 2)) (Finite (5404319552844595 / 4503599627370496))
   = Finite (2026619832316723 / 1125899906842624)"
  by (simp only: fmul_def pyfloat.case double_product)

lemma product_minus_one:
  "fsub (Finite (2026619832316723 / 1125899906842624)) (Finite 1)
   = Finite (900719925474099 / 1125899906842624)"
  by (simp only: fsub_def fneg_def fadd_def pyfloat.case double_product_minus_one)

lemma one_times_three_halves: "fmul (Finite 1) (Finite (3 / 2)) = Finite (3 / 2)"
  using fmul_one_fadd [of "Finite 1" "Finite (1 / 2)"] by (simp only: one_plus_half)

lemma one_times_eleven_tenths:
  "fmul (Finite 1) (Finite (2476979795053773 / 2251799813685248))
   = Finite (2476979795053773 / 2251799813685248)"
  using fmul_one_fadd [of "Finite 1" "Finite (3602879701896397 / 36028797018963968)"]
  by (simp only: one_plus_tenth)

subsection \<open>The chain of daily returns\<close>

lemma twr_loop_foldl:
  "set ks \<subseteq> fst ` set m \<Longrightarrow>
   twr_loop m ks p = Inr (foldl fmul p (map (\<lambda>k. fadd (Finite 1) (the (map_of m k))) ks))"
proof (induction ks arbitrary: p)
  case Nil
  then show ?case by simp
next
  case (Cons k ks)
  from Cons.prems have "map_of m k \<noteq> None"
    by (simp add: map_of_eq_None_iff)
  then obtain v where v: "map_of m k = Some v" by auto
  with Cons show ?case by (simp add: dict_item_def)
qed

lemma sort_keys_of_dict:
  assumes "distinct (map fst m)"
  shows "sort (map fst m) = map fst (sort_key fst m)"
proof (rule sorted_distinct_set_unique)
  show "sorted (sort (map fst m))" by simp
  show "distinct (sort (map fst m))" using assms by simp
  show "sorted (map fst (sort_key fst m))" by simp
  have "distinct m" and "inj_on fst (set m)" using assms by (simp_all add: distinct_map)
  then show "distinct (map fst (sort_key fst m))" by (simp add: distinct_map)
  show "set (sort (map fst m)) = set (map fst (sort_key fst m))" by simp
qed

lemma fsub_same_one: "fsub (Finite 1) (Finite 1) = Finite 0"
  by (simp add: fsub_def fadd_def fneg_def to_double_def)

lemma calculate_twr_sorted_entries:
  assumes "distinct (map fst m)"
  shows "calculate_twr m
         = Inr (fsub (foldl fmul (Finite 1) (map (\<lambda>(d, r). fadd (Finite 1) r) (sort_key fst m)))
                  (Finite 1))"
proof (cases "m = []")
  case True
  then show ?thesis by (simp add: calculate_twr_def fsub_same_one)
next
  case False
  have "map (\<lambda>k. fadd (Finite 1) (the (map_of m k))) (sort (map fst m))
        = map (\<lambda>(d, r). fadd (Finite 1) r) (sort_key fst m)"
    using assms by (auto simp: sort_keys_of_dict)
  moreover have "twr_loop m (sort (map fst m)) (Finite 1)
                 = Inr (foldl fmul (Finite 1)
                         (map (\<lambda>k. fadd (Finite 1) (the (map_of m k))) (sort (map fst m))))"
    by (rule twr_loop_foldl) simp
  ultimately show ?thesis using False by (simp add: calculate_twr_def)
qed

lemma to_double_finite:
  assumes "\<bar>x\<bar> < 2 powi (e + 1)" and "e \<le> 1022"
  shows "\<exists>y. to_double x = Finite y"
proof (cases "to_double x")
  case PosInf
  then have x0: "x \<noteq> 0" by (auto simp: to_double_def)
  define e' where "e' = max (floor_log2 \<bar>x\<bar>) (- 1022)"
  define q :: rat where "q = 2 powi (e' - 52)"
  define n where "n = round_half_even (x / q)"
  have q: "0 < q" by (simp add: q_def)
  have x_pos: "0 < \<bar>x\<bar>" using x0 by simp
  have "(2::rat) powi floor_log2 \<bar>x\<bar> < 2 powi (e + 1)"
    using floor_log2_bounds(1) [OF x_pos] assms(1) by (rule le_less_trans)
  then have "floor_log2 \<bar>x\<bar> < e + 1" by (rule pow2_less_imp_less)
  with assms(2) have e': "e' \<le> 1022" by (simp add: e'_def)
  have p53: "of_int (2 ^ 53) * q = 2 powi (e' + 1)"
    unfolding q_def by (simp only: of_int_power of_int_numeral pow2_split)
  have "floor_log2 \<bar>x\<bar> + 1 \<le> e' + 1" by (simp add: e'_def)
  then have "(2::rat) powi (floor_log2 \<bar>x\<bar> + 1) \<le> 2 powi (e' + 1)"
    by (rule power_int_increasing) simp
  with floor_log2_bounds(2) [OF x_pos] have "\<bar>x\<bar> < 2 powi (e' + 1)" by simp
  then have "\<bar>x\<bar> \<le> of_int (2 ^ 53) * q" by (simp only: p53 less_imp_le)
  with q have n53: "\<bar>n\<bar> \<le> 2 ^ 53" unfolding n_def by (rule round_half_even_abs_le)
  have "\<bar>of_int n * q\<bar> = of_int \<bar>n\<bar> * q" using q by (simp add: abs_mult)
  also have "\<dots> \<le> of_int (2 ^ 53) * q"
    using n53 q by (intro mult_right_mono) (simp_all only: of_int_le_iff less_imp_le)
  also have "\<dots> = 2 powi (e' + 1)" by (rule p53)
  also have "\<dots> < 2 powi 1024" using e' by (intro power_int_strict_increasing) simp_all
  finally have "\<not> 2 powi 1024 \<le> \<bar>of_int n * q\<bar>" by simp
  with x0 have "to_double x = Finite (of_int n * q)"
    by (simp add: to_double_def Let_def e'_def [symmetric] q_def [symmetric] n_def [symmetric])
  with PosInf show ?thesis by simp
next
  case NegInf
  then have x0: "x \<noteq> 0" by (auto simp: to_double_def)
  define e' where "e' = max (floor_log2 \<bar>x\<bar>) (- 1022)"
  define q :: rat where "q = 2 powi (e' - 52)"
  define n where "n = round_half_even (x / q)"
  have q: "0 < q" by (simp add: q_def)
  have x_pos: "0 < \<bar>x\<bar>" using x0 by simp
  have "(2::rat) powi floor_log2 \<bar>x\<bar> < 2 powi (e + 1)"
    using floor_log2_bounds(1) [OF x_pos] assms(1) by (rule le_less_trans)
  then have "floor_log2 \<bar>x\<bar> < e + 1" by (rule pow2_less_imp_less)
  with assms(2) have e': "e' \<le> 1022" by (simp add: e'_def)
  have p53: "of_int (2 ^ 53) * q = 2 powi (e' + 1)"
    unfolding q_def by (simp only: of_int_power of_int_numeral pow2_split)
  have "floor_log2 \<bar>x\<bar> + 1 \<le> e' + 1" by (simp add: e'_def)
  then have "(2::rat) powi (floor_log2 \<bar>x\<bar> + 1) \<le> 2 powi (e' + 1)"
    by (rule power_int_increasing) simp
  with floor_log2_bounds(2) [OF x_pos] have "\<bar>x\<bar> < 2 powi (e' + 1)" by simp
  then have "\<bar>x\<bar> \<le> of_int (2 ^ 53) * q" by (simp only: p53 less_imp_le)
  with q have n53: "\<bar>n\<bar> \<le> 2 ^ 53" unfolding n_def by (rule round_half_even_abs_le)
  have "\<bar>of_int n * q\<bar> = of_int \<bar>n\<bar> * q" using q by (simp add: abs_mult)
  also have "\<dots> \<le> of_int (2 ^ 53) * q"
    using n53 q by (intro mult_right_mono) (simp_all only: of_int_le_iff less_imp_le)
  also have "\<dots> = 2 powi (e' + 1)" by (rule p53)
  also have "\<dots> < 2 powi 1024" using e' by (intro power_int_strict_increasing) simp_all
  finally have "\<not> 2 powi 1024 \<le> \<bar>of_int n * q\<bar>" by simp
  with x0 have "to_double x = Finite (of_int n * q)"
    by (simp add: to_double_def Let_def e'_def [symmetric] q_def [symmetric] n_def [symmetric])
  with NegInf show ?thesis by simp
next
  case NaN
  then show ?thesis by (simp add: to_double_def Let_def split: if_splits)
qed simp

lemma single_return_near:
  assumes "\<bar>x\<bar> \<le> 1"
  shows "\<exists>y. fsub (fadd (Finite 1) (Finite x)) (Finite 1) = Finite y \<and> \<bar>y - x\<bar> \<le> 1 / 2 ^ 51"
proof -
  have bs: "\<bar>1 + x\<bar> < 2 powi (1 + 1)" using assms by simp
  then obtain s where s: "to_double (1 + x) = Finite s"
    using to_double_finite [of "1 + x" 1] by auto
  have "\<bar>s - (1 + x)\<bar> \<le> 2 powi (1 - 53)"
    using to_double_error [OF s bs] by simp
  then have es: "\<bar>s - (1 + x)\<bar> \<le> 1 / 2 ^ 52" by (simp add: power_int_minus_divide)
  have "\<bar>s - 1\<bar> \<le> \<bar>s - (1 + x)\<bar> + \<bar>x\<bar>" by linarith
  also have "\<dots> \<le> 1 / 2 ^ 52 + 1" using es assms by linarith
  also have "\<dots> < 2 powi (0 + 1)" by simp
  finally have bt: "\<bar>s - 1\<bar> < 2 powi (0 + 1)" .
  then obtain t where t: "to_double (s - 1) = Finite t"
    using to_double_finite [of "s - 1" 0] by auto
  have "\<bar>t - (s - 1)\<bar> \<le> 2 powi (0 - 53)"
    using to_double_error [OF t bt] by simp
  then have et: "\<bar>t - (s - 1)\<bar> \<le> 1 / 2 ^ 53" by (simp add: power_int_minus_divide)
  have "\<bar>t - x\<bar> \<le> \<bar>t - (s - 1)\<bar> + \<bar>s - (1 + x)\<bar>" by linarith
  also have "\<dots> \<le> 1 / 2 ^ 53 + 1 / 2 ^ 52" using et es by linarith
  also have "\<dots> \<le> 1 / 2 ^ 51" by simp
  finally have "\<bar>t - x\<bar> \<le> 1 / 2 ^ 51" .
  moreover have "fsub (fadd (Finite 1) (Finite x)) (Finite 1) = Finite t"
    by (simp add: fsub_def fadd_def fneg_def s t)
  ultimately show ?thesis by blast
qed

text \<open>
  Claim C2, as amended. For every finite map from dates to daily returns \<open>r\<^sub>i\<close>,
  \<open>calculate_twr\<close> returns the value obtained from \<open>1.0\<close> by multiplying, in ascending date
  order, by \<open>1 + r\<^sub>i\<close>, and subtracting 1 at the end, every addition, multiplication and
  subtraction being the double-precision operation, which rounds its exact result to the
  nearest double. In particular \<open>calculate_twr\<close> of the empty input is 0; of a single
  return \<open>r\<close> it is \<open>(1 + r) - 1\<close> in that arithmetic, which for \<open>\<bar>r\<bar> \<le> 1\<close> is a finite number
  within \<open>2 ^ - 51\<close> of \<open>r\<close>; and of two returns \<open>r1\<close>, \<open>r2\<close> on different dates it is
  \<open>(1 + r1) * (1 + r2) - 1\<close> in that arithmetic, whichever date is the earlier.
\<close>

theorem calculate_twr_chain:
  "(distinct (map fst m) \<longrightarrow>
      calculate_twr m
        = Inr (fsub (foldl fmul (Finite 1) (map (\<lambda>(d, r). fadd (Finite 1) r) (sort_key fst m)))
                 (Finite 1)))
   \<and> calculate_twr [] = Inr (Finite 0)
   \<and> calculate_twr [(d, r)] = Inr (fsub (fadd (Finite 1) r) (Finite 1))
   \<and> (d1 \<noteq> d2 \<longrightarrow>
        calculate_twr [(d1, r1), (d2, r2)]
          = Inr (fsub (fmul (fadd (Finite 1) r1) (fadd (Finite 1) r2)) (Finite 1)))
   \<and> (\<bar>x\<bar> \<le> 1 \<longrightarrow>
        (\<exists>y. calculate_twr [(d, Finite x)] = Inr (Finite y) \<and> \<bar>y - x\<bar> \<le> 1 / 2 ^ 51))"
proof -
  have one: "calculate_twr [(d', r')] = Inr (fsub (fadd (Finite 1) r') (Finite 1))" for d' r'
    by (simp add: calculate_twr_def dict_item_def fmul_one_fadd)
  have two: "calculate_twr [(d1, r1), (d2, r2)]
          = Inr (fsub (fmul (fadd (Finite 1) r1) (fadd (Finite 1) r2)) (Finite 1))" if "d1 \<noteq> d2"
  proof (cases "d1 < d2")
    case True
    then show ?thesis
      by (simp add: calculate_twr_def dict_item_def fmul_one_fadd)
  next
    case False
    with that have "d2 < d1" by simp
    then show ?thesis
      by (simp add: calculate_twr_def dict_item_def fmul_one_fadd fmul_commute [of "fadd (Finite 1) r2"])
  qed
  have near: "\<exists>y. calculate_twr [(d, Finite x)] = Inr (Finite y) \<and> \<bar>y - x\<bar> \<le> 1 / 2 ^ 51"
    if "\<bar>x\<bar> \<le> 1"
    using single_return_near [OF that] by (simp add: one)
  have "calculate_twr [] = Inr (Finite 0)"
    by (simp add: calculate_twr_def)
  with one two near show ?thesis
    using calculate_twr_sorted_entries [of m] by blast
qed

theorem calculate_twr_chain_witness:
  "distinct (map fst [(3 :: date, Finite (3602879701896397 / 18014398509481984)), (1, Finite (1 / 2))])
   \<and> calculate_twr [(3, Finite (3602879701896397 / 18014398509481984)), (1, Finite (1 / 2))]
       = Inr (Finite (900719925474099 / 1125899906842624))
   \<and> calculate_twr [] = Inr (Finite 0)
   \<and> (3 :: date) \<noteq> 1
   \<and> \<bar>1 / 2 :: rat\<bar> \<le> 1
   \<and> calculate_twr [(1, Finite (1 / 2))] = Inr (Finite (1 / 2))
   \<and> \<bar>1 / 2 - 1 / 2 :: rat\<bar> \<le> 1 / 2 ^ 51"
  using calculate_twr_chain
    [where m = "[(3, Finite (3602879701896397 / 18014398509481984)), (1, Finite (1 / 2))]"
       and d = 1 and r = "Finite (1 / 2)" and x = "1 / 2"
       and ?d1.0 = 3 and ?d2.0 = 1
       and ?r1.0 = "Finite (3602879701896397 / 18014398509481984)" and ?r2.0 = "Finite (1 / 2)"]
  by (simp add: one_plus_half one_plus_fifth one_times_three_halves
      three_halves_times_six_fifths product_minus_one three_halves_minus_one)

text \<open>
  Claim C2, as stated, fails for a single return: the return \<open>0.1\<close>, the double
  \<open>3602879701896397 / 2 ^ 55\<close>, gives \<open>225179981368525 / 2 ^ 51\<close>, which Python prints as
  \<open>0.10000000000000009\<close>, and not \<open>0.1\<close>. The sum \<open>1 + 0.1\<close> is rounded to 52 binary places,
  and the subtraction of 1 that follows is exact.
\<close>

theorem single_return_not_returned:
  "to_double (1 / 10) = Finite (3602879701896397 / 36028797018963968)
   \<and> calculate_twr [(1, Finite (3602879701896397 / 36028797018963968))]
       = Inr (Finite (225179981368525 / 2251799813685248))
   \<and> Finite (225179981368525 / 2251799813685248)
       \<noteq> Finite (3602879701896397 / 36028797018963968)"
  by (simp add: double_tenth calculate_twr_def dict_item_def one_plus_tenth
      one_times_eleven_tenths eleven_tenths_minus_one)

section \<open>The guard of the close endpoint\<close>

text \<open>
  Claim C6. Closing an allocation that is already closed is rejected by the endpoint with
  its own error (status 400, ``Allocation is already closed'', different from the 404 of a
  missing allocation) before anything is changed: the database, and with it every field of
  the allocation, is as it was, and no realized figure is computed again.
\<close>

theorem close_allocation_rejects_closed:
  assumes "db_allocations db k = Some a" and "\<not> is_active a"
  shows "close_allocation db k close_data now
           = (db, Inl (HTTPException 400 ''Allocation is already closed''))
       \<and> db_allocations (fst (close_allocation db k close_data now)) k = Some a
       \<and> HTTPException 400 ''Allocation is already closed''
           \<noteq> HTTPException 404 ''Allocation not found''"
  using assms by (simp add: close_allocation_def)

theorem close_allocation_rejects_closed_witness:
  "db_allocations example_db 1 = Some closed_position \<and> \<not> is_active closed_position
   \<and> close_allocation example_db 1
        \<lparr>cl_exit_price = 30, cl_exit_date = None, cl_exit_fees = 0, cl_notes = None\<rparr> 999
      = (example_db, Inl (HTTPException 400 ''Allocation is already closed''))
   \<and> realized_gain_loss closed_position = Some 235"
  using close_allocation_rejects_closed [of example_db 1 closed_position
    "\<lparr>cl_exit_price = 30, cl_exit_date = None, cl_exit_fees = 0, cl_notes = None\<rparr>" 999]
  by (simp add: example_db_def closed_position_def example_position_def)

section \<open>Valuation of a position\<close>







section \<open>The portfolio-value series and the daily returns\<close>

lemma update_fresh_key:
  "k \<notin> fst ` set al \<Longrightarrow> AList.update k v al = al @ [(k, v)]"
  by (induction al) auto

lemma fold_update_fresh:
  "distinct xs \<Longrightarrow> set xs \<inter> fst ` set d0 = {} \<Longrightarrow>
   fold (\<lambda>x. AList.update x (f x)) xs d0 = d0 @ map (\<lambda>x. (x, f x)) xs"
proof (induction xs arbitrary: d0)
  case Nil
  then show ?case by simp
next
  case (Cons x xs)
  from Cons.prems have fresh: "x \<notin> fst ` set d0" by auto
  have "set xs \<inter> fst ` set (d0 @ [(x, f x)]) = {}"
    using Cons.prems by auto
  with Cons show ?case by (simp add: update_fresh_key [OF fresh])
qed

lemma fold_guarded:
  "fold (\<lambda>x acc. if P x then g x acc else acc) xs acc = fold g (filter P xs) acc"
  by (induction xs arbitrary: acc) auto

lemma all_dates_of_props:
  "sorted (all_dates_of ph)" "distinct (all_dates_of ph)"
  "set (all_dates_of ph) = bar_date ` set ph"
  by (simp_all add: all_dates_of_def)

lemma portfolio_value_of_closed:
  "portfolio_value_of al ph
     = map (\<lambda>d. (d, day_value_of (asset_prices_of ph) al d))
         (filter (\<lambda>d. 0 < day_value_of (asset_prices_of ph) al d) (all_dates_of ph))"
proof -
  have "portfolio_value_of al ph
        = fold (\<lambda>d. AList.update d (day_value_of (asset_prices_of ph) al d))
            (filter (\<lambda>d. 0 < day_value_of (asset_prices_of ph) al d) (all_dates_of ph)) []"
    unfolding portfolio_value_of_def Let_def by (rule fold_guarded)
  also have "\<dots> = [] @ map (\<lambda>d. (d, day_value_of (asset_prices_of ph) al d))
         (filter (\<lambda>d. 0 < day_value_of (asset_prices_of ph) al d) (all_dates_of ph))"
    by (rule fold_update_fresh) (simp_all add: all_dates_of_props)
  finally show ?thesis by simp
qed

lemma portfolio_value_keys:
  "map fst (portfolio_value_of al ph)
     = filter (\<lambda>d. 0 < day_value_of (asset_prices_of ph) al d) (all_dates_of ph)"
  by (simp add: portfolio_value_of_closed comp_def)

lemma portfolio_value_keys_sorted:
  "sorted (map fst (portfolio_value_of al ph))" "distinct (map fst (portfolio_value_of al ph))"
  by (simp_all add: portfolio_value_keys all_dates_of_props sorted_filter[where f = id, simplified])

lemma portfolio_value_lookup:
  "map_of (portfolio_value_of al ph) d
     = (if d \<in> bar_date ` set ph \<and> 0 < day_value_of (asset_prices_of ph) al d
        then Some (day_value_of (asset_prices_of ph) al d) else None)"
proof -
  have "map_of (map (\<lambda>d. (d, f d)) xs) d = (if d \<in> set xs then Some (f d) else None)"
    for f :: "date \<Rightarrow> decimal" and xs
    by (induction xs) auto
  then show ?thesis
    by (simp add: portfolio_value_of_closed all_dates_of_props)
qed

lemma returns_loop_closed:
  assumes "\<forall>i\<in>set is. i < length sd \<and> sd ! i \<in> fst ` set pv \<and> sd ! (i - 1) \<in> fst ` set pv"
    and "distinct (map ((!) sd) is)"
    and "(!) sd ` set is \<inter> fst ` set dr = {}"
  shows "returns_loop pv sd is dr
         = Inr (dr @ map (\<lambda>i. (sd ! i, (the (map_of pv (sd ! i)) - the (map_of pv (sd ! (i - 1))))
                                        / the (map_of pv (sd ! (i - 1)))))
                       (filter (\<lambda>i. 0 < the (map_of pv (sd ! (i - 1)))) is))"
  using assms
proof (induction "is" arbitrary: dr)
  case Nil
  then show ?case by simp
next
  case (Cons i rest)
  from Cons.prems(1) have i: "i < length sd" and
    kt: "map_of pv (sd ! i) \<noteq> None" and ky: "map_of pv (sd ! (i - 1)) \<noteq> None"
    by (simp_all add: map_of_eq_None_iff)
  then obtain vt vy where vt: "map_of pv (sd ! i) = Some vt"
    and vy: "map_of pv (sd ! (i - 1)) = Some vy" by auto
  from Cons.prems have rest: "\<forall>j\<in>set rest. j < length sd \<and> sd ! j \<in> fst ` set pv \<and> sd ! (j - 1) \<in> fst ` set pv"
    and drest: "distinct (map ((!) sd) rest)" by simp_all
  from Cons.prems(3) have fresh: "sd ! i \<notin> fst ` set dr" by auto
  show ?case
  proof (cases "0 < vy")
    case True
    have "(!) sd ` set rest \<inter> fst ` set (dr @ [(sd ! i, (vt - vy) / vy)]) = {}"
      using Cons.prems(2,3) by auto
    from Cons.IH [OF rest drest this] True i vt vy show ?thesis
      by (simp add: dict_item_def update_fresh_key [OF fresh])
  next
    case False
    have "(!) sd ` set rest \<inter> fst ` set dr = {}" using Cons.prems(3) by auto
    from Cons.IH [OF rest drest this] False i vt vy show ?thesis
      by (simp add: dict_item_def)
  qed
qed



lemma daily_returns_of_closed:
  assumes "distinct (map fst pv)"
  shows "daily_returns_of pv
         = Inr (map (\<lambda>i. (sort (map fst pv) ! i,
                          (the (map_of pv (sort (map fst pv) ! i))
                             - the (map_of pv (sort (map fst pv) ! (i - 1))))
                          / the (map_of pv (sort (map fst pv) ! (i - 1)))))
                  (filter (\<lambda>i. 0 < the (map_of pv (sort (map fst pv) ! (i - 1))))
                     [1 ..< length pv]))"
proof -
  let ?sd = "sort (map fst pv)"
  have len: "length ?sd = length pv" by simp
  have dist: "distinct ?sd" using assms by simp
  have mem: "?sd ! j \<in> fst ` set pv" if "j < length pv" for j
  proof -
    have "?sd ! j \<in> set ?sd" by (rule nth_mem) (simp add: that)
    then show ?thesis by simp
  qed
  have a1: "\<forall>i\<in>set [1 ..< length ?sd].
              i < length ?sd \<and> ?sd ! i \<in> fst ` set pv \<and> ?sd ! (i - 1) \<in> fst ` set pv"
    using mem by (auto simp: len)
  have "inj_on ((!) ?sd) (set [1 ..< length ?sd])"
    using dist by (auto simp: inj_on_def nth_eq_iff_index_eq)
  then have a2: "distinct (map ((!) ?sd) [1 ..< length ?sd])"
    by (simp add: distinct_map)
  have a3: "(!) ?sd ` set [1 ..< length ?sd] \<inter> fst ` set ([] :: (date \<times> decimal) list) = {}"
    by simp
  from returns_loop_closed [OF a1 a2 a3] show ?thesis
    by (simp add: daily_returns_of_def Let_def)
qed



lemma find_append_cases:
  "find P (xs @ ys) = (case find P xs of None \<Rightarrow> find P ys | Some x \<Rightarrow> Some x)"
  by (induction xs) auto

lemma dict_get_update:
  "dict_get (AList.update k v d) k' dflt = (if k' = k then v else dict_get d k' dflt)"
  by (simp add: dict_get_def update_conv')

lemma asset_prices_fold_lookup:
  "map_of (dict_get
      (fold (\<lambda>price asset_prices.
               AList.update (bar_asset_id price)
                 (AList.update (bar_date price) (close_price price)
                    (dict_get asset_prices (bar_asset_id price) []))
                 asset_prices) ph ap) aid []) d
   = (case find (\<lambda>b. bar_asset_id b = aid \<and> bar_date b = d) (rev ph) of
        Some b \<Rightarrow> Some (close_price b)
      | None \<Rightarrow> map_of (dict_get ap aid []) d)"
proof (induction ph arbitrary: ap)
  case Nil
  then show ?case by simp
next
  case (Cons p ps)
  show ?case
    by (simp add: Cons.IH find_append_cases dict_get_update update_conv'
        split: option.split)
qed

lemma asset_prices_lookup:
  "map_of (dict_get (asset_prices_of ph) aid []) d = close_on ph aid d"
  unfolding asset_prices_of_def close_on_def
  by (subst asset_prices_fold_lookup) (simp add: dict_get_def split: option.split)

lemma day_value_fold:
  "fold (\<lambda>alloc day_value.
           (case lk alloc of
              None \<Rightarrow> day_value
            | Some price \<Rightarrow>
                if price \<noteq> 0 then day_value + quantity alloc * price else day_value))
        al acc
   = acc + sum_list (map (\<lambda>a. case lk a of None \<Rightarrow> 0 | Some p \<Rightarrow> quantity a * p) al)"
  by (induction al arbitrary: acc) (auto split: option.split)

lemma day_value_computed:
  "day_value_of (asset_prices_of ph) al d = computed_value al ph d"
  unfolding day_value_of_def computed_value_def
  by (simp add: day_value_fold asset_prices_lookup)

text \<open>
  Claim C4. The portfolio-value series that \<open>calculate_daily_returns\<close> builds holds a date
  exactly when some price bar has that date and the value computed for it (the sum over the
  allocations of quantity times the asset's close price on that exact date, when a bar
  exists) is strictly positive, and then it holds that value. So a date whose computed value
  is 0, among them a date on which no held asset has a bar, is absent rather than present
  with the value 0, every date of the series is the date of some bar, and every value kept
  is positive.
\<close>

theorem portfolio_value_positive_only:
  "(map_of (portfolio_value_of al ph) d = Some v
      \<longleftrightarrow> d \<in> bar_date ` set ph \<and> v = computed_value al ph d \<and> 0 < v)
   \<and> (computed_value al ph d = 0 \<longrightarrow> d \<notin> fst ` set (portfolio_value_of al ph))
   \<and> ((\<forall>a\<in>set al. close_on ph (asset_id a) d = None)
        \<longrightarrow> d \<notin> fst ` set (portfolio_value_of al ph))
   \<and> fst ` set (portfolio_value_of al ph) \<subseteq> bar_date ` set ph
   \<and> (\<forall>p\<in>set (portfolio_value_of al ph). 0 < snd p)"
proof -
  have lk: "map_of (portfolio_value_of al ph) d'
        = (if d' \<in> bar_date ` set ph \<and> 0 < computed_value al ph d'
           then Some (computed_value al ph d') else None)" for d'
    by (simp add: portfolio_value_lookup day_value_computed)
  have keys: "d' \<in> fst ` set (portfolio_value_of al ph)
        \<longleftrightarrow> d' \<in> bar_date ` set ph \<and> 0 < computed_value al ph d'" for d'
    using lk [of d'] map_of_eq_None_iff [of "portfolio_value_of al ph" d']
    by (auto split: if_splits)
  have nobar: "computed_value al ph d = 0" if "\<forall>a\<in>set al. close_on ph (asset_id a) d = None"
  proof -
    have "computed_value al ph d = sum_list (map (\<lambda>a. 0) al)"
      unfolding computed_value_def
      by (rule arg_cong [where f = sum_list], rule map_cong) (simp_all add: that)
    then show ?thesis by simp
  qed
  have pos: "0 < snd p" if "p \<in> set (portfolio_value_of al ph)" for p
    using that by (auto simp: portfolio_value_of_closed)
  show ?thesis
    using lk [of d] keys nobar pos by (auto split: if_splits)
qed


lemma map_nth_tl: "map ((!) xs) [1 ..< length xs] = tl xs"
  by (rule nth_equalityI) (auto simp: nth_tl)


lemma calculate_daily_returns_Inr:
  "\<exists>dr sv ev. calculate_daily_returns al ph s e = Inr (dr, sv, ev)
      \<and> daily_returns_of (portfolio_value_of al ph) = Inr dr"
proof -
  obtain dr where "daily_returns_of (portfolio_value_of al ph) = Inr dr"
    using daily_returns_of_closed [OF portfolio_value_keys_sorted(2), of al ph] by blast
  then show ?thesis by (simp add: calculate_daily_returns_def Let_def)
qed


text \<open>
  Claim C10. The daily-returns map has exactly \<open>max 0 (n - 1)\<close> entries, \<open>n\<close> being the
  number of dates of the portfolio-value series (the subtraction on \<open>nat\<close> stops at 0):
  every value kept in the series is positive, so the guard on the earlier value never drops
  a pair, and the keys of the map are the dates of the series without the earliest.
\<close>

theorem daily_returns_count:
  "case calculate_daily_returns al ph s e of
     Inl err \<Rightarrow> False
   | Inr (dr, sv, ev) \<Rightarrow>
       length dr = length (portfolio_value_of al ph) - 1
       \<and> distinct (map fst dr)
       \<and> fst ` set dr = set (tl (sort (map fst (portfolio_value_of al ph))))"
proof -
  let ?pv = "portfolio_value_of al ph"
  let ?sd = "sort (map fst ?pv)"
  let ?P = "\<lambda>i. 0 < the (map_of ?pv (?sd ! (i - 1)))"
  obtain dr sv ev where r: "calculate_daily_returns al ph s e = Inr (dr, sv, ev)"
    and dr: "daily_returns_of ?pv = Inr dr"
    using calculate_daily_returns_Inr by blast
  have dist: "distinct (map fst ?pv)" by (rule portfolio_value_keys_sorted)
  have pos: "?P i" if "i \<in> set [1 ..< length ?pv]" for i
  proof -
    from that have "i - 1 < length ?sd" by auto
    then have "?sd ! (i - 1) \<in> set ?sd" by (rule nth_mem)
    then have "?sd ! (i - 1) \<in> fst ` set ?pv" by simp
    then obtain v where v: "(?sd ! (i - 1), v) \<in> set ?pv" by auto
    then have "map_of ?pv (?sd ! (i - 1)) = Some v" using dist by simp
    moreover have "0 < v" using v by (auto simp: portfolio_value_of_closed)
    ultimately show ?thesis by simp
  qed
  then have all: "filter ?P [1 ..< length ?pv] = [1 ..< length ?pv]"
    by (simp add: filter_id_conv del: upt_Suc)
  have closed: "dr = map (\<lambda>i. (?sd ! i, (the (map_of ?pv (?sd ! i))
                                       - the (map_of ?pv (?sd ! (i - 1))))
                                      / the (map_of ?pv (?sd ! (i - 1)))))
                    [1 ..< length ?pv]"
    using daily_returns_of_closed [OF dist] dr all by simp
  have keys: "map fst dr = map ((!) ?sd) [1 ..< length ?sd]"
    by (subst closed) (simp add: comp_def)
  also have "\<dots> = tl ?sd"
    by (rule map_nth_tl)
  finally have "map fst dr = tl ?sd" .
  moreover have "distinct (tl ?sd)" using dist by (simp add: distinct_tl)
  moreover have "length dr = length ?pv - 1" by (subst closed) simp
  ultimately show ?thesis
    by (simp add: r) (metis list.set_map)
qed


lemma example_series:
  "portfolio_value_of [one_hundred_units] two_bars = [(1, 1000), (3, 1200)]"
  by code_simp

lemma example_returns:
  "calculate_daily_returns [one_hundred_units] two_bars 1 3 = Inr ([(3, 1 / 5)], 1000, 1200)"
  by code_simp


theorem portfolio_value_positive_only_witness:
  "close_on two_bars (asset_id one_hundred_units) 2 = None
   \<and> computed_value [one_hundred_units] two_bars 2 = 0
   \<and> 2 \<notin> fst ` set (portfolio_value_of [one_hundred_units] two_bars)
   \<and> map_of (portfolio_value_of [one_hundred_units] two_bars) 1 = Some 1000
   \<and> computed_value [one_hundred_units] two_bars 1 = 1000
   \<and> portfolio_value_of [one_hundred_units] two_bars = [(1, 1000), (3, 1200)]"
proof -
  have "close_on two_bars (asset_id one_hundred_units) 2 = None" by code_simp
  moreover have "computed_value [one_hundred_units] two_bars 2 = 0" by code_simp
  moreover have "computed_value [one_hundred_units] two_bars 1 = 1000" by code_simp
  ultimately show ?thesis
    using portfolio_value_positive_only [of "[one_hundred_units]" two_bars 2 0]
    by (simp add: example_series)
qed

theorem daily_returns_count_witness:
  "calculate_daily_returns [one_hundred_units] two_bars 1 3 = Inr ([(3, 1 / 5)], 1000, 1200)
   \<and> length [(3 :: date, 1 / 5 :: decimal)]
       = length (portfolio_value_of [one_hundred_units] two_bars) - 1"
  using daily_returns_count [of "[one_hundred_units]" two_bars 1 3]
  by (simp add: example_series example_returns)

section \<open>Net new money: flows and running sum\<close>

lemma combine_flows_valid:
  assumes "pt \<in> set PeriodType"
  shows "\<exists>response. combine_flows ks ins outs pt c = Inr response
          \<and> map period response = ks
          \<and> length response = length ks
          \<and> (\<forall>i < length ks.
                inflows (response ! i) = dict_get ins (ks ! i) 0
              \<and> outflows (response ! i) = dict_get outs (ks ! i) 0
              \<and> net_flow (response ! i) = inflows (response ! i) - outflows (response ! i)
              \<and> cumulative_net (response ! i)
                  = c + sum_list (map net_flow (take (Suc i) response))
              \<and> period_type (response ! i) = pt)"
proof (induction ks arbitrary: c)
  case Nil
  then show ?case by simp
next
  case (Cons k ks)
  let ?n = "dict_get ins k 0 - dict_get outs k 0"
  let ?row = "\<lparr>period = k, inflows = dict_get ins k 0, outflows = dict_get outs k 0,
               net_flow = ?n, cumulative_net = c + ?n, period_type = pt\<rparr>"
  from Cons.IH [of "c + ?n"] obtain rest where
    rest: "combine_flows ks ins outs pt (c + ?n) = Inr rest"
    and per: "map period rest = ks" and len: "length rest = length ks"
    and props: "\<forall>i < length ks.
                inflows (rest ! i) = dict_get ins (ks ! i) 0
              \<and> outflows (rest ! i) = dict_get outs (ks ! i) 0
              \<and> net_flow (rest ! i) = inflows (rest ! i) - outflows (rest ! i)
              \<and> cumulative_net (rest ! i)
                  = (c + ?n) + sum_list (map net_flow (take (Suc i) rest))
              \<and> period_type (rest ! i) = pt"
    by blast
  have eq: "combine_flows (k # ks) ins outs pt c = Inr (?row # rest)"
    using assms rest by (simp add: NetNewMoneyData_def Let_def)
  have "\<forall>i < length (k # ks).
                inflows ((?row # rest) ! i) = dict_get ins ((k # ks) ! i) 0
              \<and> outflows ((?row # rest) ! i) = dict_get outs ((k # ks) ! i) 0
              \<and> net_flow ((?row # rest) ! i) = inflows ((?row # rest) ! i) - outflows ((?row # rest) ! i)
              \<and> cumulative_net ((?row # rest) ! i)
                  = c + sum_list (map net_flow (take (Suc i) (?row # rest)))
              \<and> period_type ((?row # rest) ! i) = pt"
  proof (intro allI impI)
    fix i assume i: "i < length (k # ks)"
    show "inflows ((?row # rest) ! i) = dict_get ins ((k # ks) ! i) 0
              \<and> outflows ((?row # rest) ! i) = dict_get outs ((k # ks) ! i) 0
              \<and> net_flow ((?row # rest) ! i) = inflows ((?row # rest) ! i) - outflows ((?row # rest) ! i)
              \<and> cumulative_net ((?row # rest) ! i)
                  = c + sum_list (map net_flow (take (Suc i) (?row # rest)))
              \<and> period_type ((?row # rest) ! i) = pt"
    proof (cases i)
      case 0
      then show ?thesis by simp
    next
      case (Suc j)
      with i have "j < length ks" by simp
      from props [rule_format, OF this] Suc show ?thesis by (simp add: algebra_simps)
    qed
  qed
  with eq per len show ?case by simp
qed


text \<open>
  Claim C8. When the period type is one the response schema accepts, the buckets of the
  net-new-money response are in ascending order of period, one for each key of the inflow
  series or of the outflow series; in each bucket \<open>net_flow = inflows - outflows\<close>,
  \<open>cumulative_net\<close> is the sum of \<open>net_flow\<close> over the buckets up to and including it (the
  running sum starts from 0), and in the last bucket it is the sum of \<open>net_flow\<close> over all
  buckets.
\<close>

theorem net_new_money_running_sum:
  assumes "pt \<in> set PeriodType"
  shows "case net_new_money_response inflows_data outflows_data pt of
           Inl err \<Rightarrow> False
         | Inr response \<Rightarrow>
             set (map period response) = fst ` set inflows_data \<union> fst ` set outflows_data
           \<and> sorted (map period response) \<and> distinct (map period response)
           \<and> (\<forall>i < length response.
                 inflows (response ! i) = dict_get inflows_data (period (response ! i)) 0
               \<and> outflows (response ! i) = dict_get outflows_data (period (response ! i)) 0
               \<and> net_flow (response ! i) = inflows (response ! i) - outflows (response ! i)
               \<and> cumulative_net (response ! i)
                   = sum_list (map net_flow (take (Suc i) response)))
           \<and> (response \<noteq> [] \<longrightarrow>
                 cumulative_net (last response) = sum_list (map net_flow response))"
proof -
  let ?ks = "sort (remdups (map fst inflows_data @ map fst outflows_data))"
  from combine_flows_valid [OF assms, of ?ks inflows_data outflows_data 0]
  obtain response where r: "combine_flows ?ks inflows_data outflows_data pt 0 = Inr response"
    and per: "map period response = ?ks" and len: "length response = length ?ks"
    and props: "\<forall>i < length ?ks.
                inflows (response ! i) = dict_get inflows_data (?ks ! i) 0
              \<and> outflows (response ! i) = dict_get outflows_data (?ks ! i) 0
              \<and> net_flow (response ! i) = inflows (response ! i) - outflows (response ! i)
              \<and> cumulative_net (response ! i)
                  = 0 + sum_list (map net_flow (take (Suc i) response))
              \<and> period_type (response ! i) = pt"
    by blast
  have key: "period (response ! i) = ?ks ! i" if "i < length response" for i
    using that per by (metis nth_map)
  have rows: "\<forall>i < length response.
                 inflows (response ! i) = dict_get inflows_data (period (response ! i)) 0
               \<and> outflows (response ! i) = dict_get outflows_data (period (response ! i)) 0
               \<and> net_flow (response ! i) = inflows (response ! i) - outflows (response ! i)
               \<and> cumulative_net (response ! i)
                   = sum_list (map net_flow (take (Suc i) response))"
    using props key len by simp
  have lst: "cumulative_net (last response) = sum_list (map net_flow response)"
    if "response \<noteq> []"
  proof -
    from that have "length response - 1 < length response" by simp
    from rows [rule_format, OF this] that show ?thesis
      by (simp add: last_conv_nth)
  qed
  have "set (map period response) = fst ` set inflows_data \<union> fst ` set outflows_data"
    by (simp add: per)
  moreover have "sorted (map period response)" "distinct (map period response)"
    by (simp_all add: per)
  ultimately show ?thesis
    using rows lst by (simp add: net_new_money_response_def r)
qed

theorem net_new_money_running_sum_witness:
  "''daily'' \<in> set PeriodType
   \<and> net_new_money_response [(10, 500), (12, 300)] [(10, 1250), (11, 40)] ''daily''
       = Inr [\<lparr>period = 10, inflows = 500, outflows = 1250, net_flow = - 750,
                cumulative_net = - 750, period_type = ''daily''\<rparr>,
              \<lparr>period = 11, inflows = 0, outflows = 40, net_flow = - 40,
                cumulative_net = - 790, period_type = ''daily''\<rparr>,
              \<lparr>period = 12, inflows = 300, outflows = 0, net_flow = 300,
                cumulative_net = - 490, period_type = ''daily''\<rparr>]
   \<and> (- 750 :: decimal) + - 40 + 300 = - 490"
proof -
  have pt: "''daily'' \<in> set PeriodType" by (simp add: PeriodType_def)
  have "net_new_money_response [(10, 500), (12, 300)] [(10, 1250), (11, 40)] ''daily''
       = Inr [\<lparr>period = 10, inflows = 500, outflows = 1250, net_flow = - 750,
                cumulative_net = - 750, period_type = ''daily''\<rparr>,
              \<lparr>period = 11, inflows = 0, outflows = 40, net_flow = - 40,
                cumulative_net = - 790, period_type = ''daily''\<rparr>,
              \<lparr>period = 12, inflows = 300, outflows = 0, net_flow = 300,
                cumulative_net = - 490, period_type = ''daily''\<rparr>]"
    by code_simp
  with pt net_new_money_running_sum [OF pt, of "[(10, 500), (12, 300)]" "[(10, 1250), (11, 40)]"]
  show ?thesis by simp
qed

section \<open>Net new money: inflows\<close>












section \<open>Top advisors: the share of revenue\<close>

text \<open>
  The lines that compute the shares, taken alone, are safe: with the divisor
  \<open>scalar or 1\<close> they return a row for each advisor and never divide by zero.
\<close>

lemma top_advisors_loop_Inr:
  "t \<noteq> 0 \<Longrightarrow>
   \<exists>response. top_advisors_loop rows t = Inr response
     \<and> length response = length rows
     \<and> (\<forall>i < length rows.
           revenue_percentage (response ! i)
             = (if t > 0 then row_revenue (rows ! i) / t * 100 else 0))"
proof (induction rows)
  case Nil
  then show ?case by simp
next
  case (Cons row rows)
  then obtain rest where rest: "top_advisors_loop rows t = Inr rest"
    and len: "length rest = length rows"
    and props: "\<forall>i < length rows.
           revenue_percentage (rest ! i)
             = (if t > 0 then row_revenue (rows ! i) / t * 100 else 0)"
    by blast
  let ?m = "\<lparr>tam_advisor_id = row_id row, tam_advisor_name = row_name row,
             tam_revenue = row_revenue row,
             revenue_percentage = (if t > 0 then row_revenue row / t * 100 else 0),
             tam_net_new_money = row_net_new_money row,
             tam_clients_count = row_clients_count row,
             change_percent = 31 / 2\<rparr>"
  have eq: "top_advisors_loop (row # rows) t = Inr (?m # rest)"
    using Cons.prems rest by (simp add: decimal_div_def)
  have "\<forall>i < length (row # rows).
           revenue_percentage ((?m # rest) ! i)
             = (if t > 0 then row_revenue ((row # rows) ! i) / t * 100 else 0)"
  proof (intro allI impI)
    fix i assume i: "i < length (row # rows)"
    show "revenue_percentage ((?m # rest) ! i)
             = (if t > 0 then row_revenue ((row # rows) ! i) / t * 100 else 0)"
    proof (cases i)
      case 0
      then show ?thesis by simp
    next
      case (Suc j)
      with i have "j < length rows" by simp
      from props [rule_format, OF this] Suc show ?thesis by simp
    qed
  qed
  with eq len show ?case by simp
qed

text \<open>
  Claim C9. The claim asks that the top-advisors computation return a share of 0 for every
  advisor when the total revenue is 0. The code does not get that far: the expression that
  builds the statement raises, the handler of the endpoint catches the exception, and the
  answer is status 500 ``Error fetching top advisors'' whatever the database holds; no list
  of advisors is ever returned.
\<close>

theorem get_top_advisors_always_fails:
  "get_top_advisors fetched scalar limit
     = Inl (HTTPException 500 ''Error fetching top advisors'')"
  by (simp add: get_top_advisors_def top_advisors_select_def)

text \<open>With two advisors without revenue and a total of 0, where the claim expects two
  shares of 0, the answer is the error.\<close>

lemma get_top_advisors_no_revenue:
  "get_top_advisors no_revenue_rows 0 5
     = Inl (HTTPException 500 ''Error fetching top advisors'')"
  by (simp add: get_top_advisors_def top_advisors_select_def)

end
